theory Spec2Isabelle
  imports Main "HOL-Library.Log_Nat" "HOL-Library.Multiset" "HOL-Library.AList" "HOL-Library.Sublist"
begin

section \<open>prepare\_data.py: dataset preparation for COLMAP\<close>

text \<open>
  The script collects images, splits them into train/val/test lists and runs the four
  COLMAP stages. The embedding below follows \<^verbatim>\<open>src/prepare_data.py\<close> function by
  function. Exceptions are values of \<open>error\<close>; every operation returns its outcome
  together with the world it leaves behind, because an exception does not undo the files
  already written.
\<close>

subsection \<open>Exceptions\<close>

datatype error =
    CalledProcessError int "string list"
  | FileNotFoundError string
  | PermissionError string
  | OSError nat string
  | FileExistsError string
  | NotADirectoryError string
  | IsADirectoryError string
  | SameFileError string
  | OverflowError
  | ValueError string
  | IndexError
  | SystemExit int

subsection \<open>Python floats\<close>

text \<open>
  \<open>int(total * train_ratio)\<close> multiplies an int by a float. A finite binary64 value is
  the rational it denotes; \<open>fl\<close> rounds a rational to the nearest binary64 value, ties
  to even, with 53 significant bits and the subnormal range below \<open>2^-1022\<close>. A result
  of magnitude \<open>2^1024\<close> or more is an infinity.
\<close>

datatype pyfloat = Finite rat | PosInf | NegInf | NaN

definition pow2 :: "int \<Rightarrow> rat" where
  "pow2 k = (if 0 \<le> k then 2 ^ nat k else 1 / 2 ^ nat (- k))"

definition ilog2 :: "rat \<Rightarrow> int" where
  "ilog2 q = (let (a, b) = quotient_of \<bar>q\<bar>; k = bitlen a - bitlen b
              in if pow2 k \<le> \<bar>q\<bar> then k else k - 1)"

definition round_even :: "rat \<Rightarrow> int" where
  "round_even x = (let f = \<lfloor>x\<rfloor>; r = x - of_int f
                   in if r < 1 / 2 then f
                      else if 1 / 2 < r then f + 1
                      else if even f then f else f + 1)"

definition fl :: "rat \<Rightarrow> rat" where
  "fl q = (if q = 0 then 0
           else let e = max (ilog2 q - 52) (- 1074)
                in of_int (round_even (q / pow2 e)) * pow2 e)"

definition overflow :: "rat \<Rightarrow> pyfloat" where
  \<comment> \<open>a value of binary exponent 1024 or more is out of range\<close>
  "overflow z = (if z = 0 \<or> ilog2 z < 1024 then Finite z
                 else if 0 < z then PosInf else NegInf)"

definition float_literal :: "rat \<Rightarrow> pyfloat" where
  \<comment> \<open>a decimal literal of the source denotes the nearest binary64 value\<close>
  "float_literal q = overflow (fl q)"

definition float_of_int :: "int \<Rightarrow> error + rat" where
  \<comment> \<open>\<open>int.__float__\<close>: an int too large for a float raises\<close>
  "float_of_int n = (case overflow (fl (of_int n)) of
                       Finite z \<Rightarrow> Inr z
                     | _ \<Rightarrow> Inl OverflowError)"

definition int_times_float :: "int \<Rightarrow> pyfloat \<Rightarrow> error + pyfloat" where
  \<comment> \<open>\<open>n * x\<close> for an int \<open>n\<close> and a float \<open>x\<close>\<close>
  "int_times_float n x =
     (case float_of_int n of
        Inl e \<Rightarrow> Inl e
      | Inr a \<Rightarrow>
          Inr (case x of
                 Finite b \<Rightarrow> overflow (fl (a * b))
               | PosInf \<Rightarrow> (if a = 0 then NaN else if 0 < a then PosInf else NegInf)
               | NegInf \<Rightarrow> (if a = 0 then NaN else if 0 < a then NegInf else PosInf)
               | NaN \<Rightarrow> NaN))"

definition py_int :: "pyfloat \<Rightarrow> error + int" where
  \<comment> \<open>\<open>int(x)\<close> truncates towards zero\<close>
  "py_int x = (case x of
                 Finite z \<Rightarrow> Inr (if 0 \<le> z then \<lfloor>z\<rfloor> else \<lceil>z\<rceil>)
               | NaN \<Rightarrow> Inl (ValueError ''cannot convert float NaN to integer'')
               | _ \<Rightarrow> Inl OverflowError)"

subsection \<open>List slices\<close>

definition slice_index :: "nat \<Rightarrow> int \<Rightarrow> nat" where
  \<comment> \<open>a slice bound against a list of length \<open>n\<close>: negative bounds count from the end,
      and every bound is clamped into \<open>0..n\<close>\<close>
  "slice_index n i = (if i < 0 then nat (max 0 (int n + i)) else min n (nat i))"

definition py_slice :: "'a list \<Rightarrow> int option \<Rightarrow> int option \<Rightarrow> 'a list" where
  \<comment> \<open>\<open>xs[lo:hi]\<close>; \<open>None\<close> is an omitted bound\<close>
  "py_slice xs lo hi =
     (let n = length xs;
          l = (case lo of None \<Rightarrow> 0 | Some i \<Rightarrow> slice_index n i);
          h = (case hi of None \<Rightarrow> n | Some i \<Rightarrow> slice_index n i)
      in take (h - l) (drop l xs))"

subsection \<open>The split of a shuffled list (lines 29-37)\<close>

record partition =
  train :: "string list"
  val :: "string list"
  test :: "string list"

definition split_list :: "string list \<Rightarrow> pyfloat \<Rightarrow> pyfloat \<Rightarrow> error + partition" where
  "split_list images train_ratio val_ratio =
     (let total = int (length images)
      in case int_times_float total train_ratio of
           Inl e \<Rightarrow> Inl e
         | Inr x \<Rightarrow>
        (case py_int x of
           Inl e \<Rightarrow> Inl e
         | Inr train_end \<Rightarrow>
        (case int_times_float total val_ratio of
           Inl e \<Rightarrow> Inl e
         | Inr y \<Rightarrow>
        (case py_int y of
           Inl e \<Rightarrow> Inl e
         | Inr val_n \<Rightarrow>
             (let val_end = train_end + val_n
              in Inr \<lparr> train = py_slice images None (Some train_end),
                       val = py_slice images (Some train_end) (Some val_end),
                       test = py_slice images (Some val_end) None \<rparr>)))))"

subsection \<open>Strings and paths\<close>

text \<open>
  File names are ASCII strings. A path is the list of its components, the empty list
  being the directory that the paths start from; \<open>path_str\<close> is \<open>str(path)\<close>.
\<close>

definition ascii_lower :: "char \<Rightarrow> char" where
  "ascii_lower c = (let n = (of_char c :: nat)
                    in if 65 \<le> n \<and> n \<le> 90 then char_of (n + 32) else c)"

definition lower :: "string \<Rightarrow> string" where
  "lower s = map ascii_lower s"

definition endswith :: "string \<Rightarrow> string \<Rightarrow> bool" where
  "endswith s suf = (length suf \<le> length s \<and> drop (length s - length suf) s = suf)"

definition image_name :: "string \<Rightarrow> bool" where
  \<comment> \<open>line 26: \<open>f.lower().endswith(('.png', '.jpg', '.jpeg'))\<close>\<close>
  "image_name f = list_ex (endswith (lower f)) [''.png'', ''.jpg'', ''.jpeg'']"

fun rfind_from :: "string \<Rightarrow> char \<Rightarrow> nat \<Rightarrow> int \<Rightarrow> int" where
  "rfind_from [] c i r = r"
| "rfind_from (x # xs) c i r = rfind_from xs c (Suc i) (if x = c then int i else r)"

definition rfind :: "string \<Rightarrow> char \<Rightarrow> int" where
  \<comment> \<open>\<open>s.rfind(c)\<close>: the last index of \<open>c\<close>, or -1\<close>
  "rfind s c = rfind_from s c 0 (- 1)"

definition suffix_of :: "string \<Rightarrow> string" where
  \<comment> \<open>\<open>PurePath.suffix\<close> of a file name\<close>
  "suffix_of name = (let i = rfind name CHR ''.''
                     in if 0 < i \<and> i < int (length name) - 1 then drop (nat i) name else [])"

definition image_suffix :: "string \<Rightarrow> bool" where
  \<comment> \<open>line 63: \<open>img.suffix.lower() in ['.png', '.jpg', '.jpeg']\<close>\<close>
  "image_suffix name = (lower (suffix_of name) \<in> set [''.png'', ''.jpg'', ''.jpeg''])"

fun join :: "string \<Rightarrow> string list \<Rightarrow> string" where
  "join sep [] = []"
| "join sep [x] = x"
| "join sep (x # y # ys) = x @ sep @ join sep (y # ys)"

fun nat_str :: "nat \<Rightarrow> string" where
  "nat_str n = (if n < 10 then [char_of (48 + n)]
                else nat_str (n div 10) @ [char_of (48 + n mod 10)])"

definition int_str :: "int \<Rightarrow> string" where
  "int_str i = (if i < 0 then ''-'' @ nat_str (nat (- i)) else nat_str (nat i))"

type_synonym path = "string list"

definition path_str :: "path \<Rightarrow> string" where
  \<comment> \<open>\<open>str(Path('.'))\<close> is \<open>'.'\<close>\<close>
  "path_str p = (if p = [] then ''.'' else join ''/'' p)"

definition name_of :: "path \<Rightarrow> string" where
  \<comment> \<open>\<open>Path.name\<close>, \<open>os.path.basename\<close>\<close>
  "name_of p = (case rev p of [] \<Rightarrow> [] | n # _ \<Rightarrow> n)"

definition parent :: "path \<Rightarrow> path" where
  "parent p = butlast p"

subsection \<open>The file system\<close>

text \<open>
  A file has its content and its metadata (the stat fields that \<open>copystat\<close>
  transfers). The file system is an association list whose order is the order in which
  a directory is enumerated. There are no symbolic links. In a file system the parent
  of every entry is a directory, so an operation may look at the path itself before it
  looks at the parent.
\<close>

datatype node = Dir | File string nat

type_synonym fs = "(path \<times> node) list"

definition lookup :: "fs \<Rightarrow> path \<Rightarrow> node option" where
  "lookup fs p = (if p = [] then Some Dir else map_of fs p)"

definition exists :: "fs \<Rightarrow> path \<Rightarrow> bool" where
  "exists fs p = (lookup fs p \<noteq> None)"

definition is_dir :: "fs \<Rightarrow> path \<Rightarrow> bool" where
  "is_dir fs p = (lookup fs p = Some Dir)"

definition is_file :: "fs \<Rightarrow> path \<Rightarrow> bool" where
  "is_file fs p = (case lookup fs p of Some (File c m) \<Rightarrow> True | _ \<Rightarrow> False)"

definition entries :: "fs \<Rightarrow> path \<Rightarrow> string list" where
  \<comment> \<open>the names of the direct entries of a directory\<close>
  "entries fs d = map (name_of \<circ> fst) (filter (\<lambda>(p, n). p \<noteq> [] \<and> parent p = d) fs)"

definition os_listdir :: "fs \<Rightarrow> path \<Rightarrow> error + string list" where
  "os_listdir fs d = (case lookup fs d of
                        None \<Rightarrow> Inl (FileNotFoundError (path_str d))
                      | Some (File c m) \<Rightarrow> Inl (NotADirectoryError (path_str d))
                      | Some Dir \<Rightarrow> Inr (entries fs d))"

definition glob_star :: "fs \<Rightarrow> path \<Rightarrow> path list" where
  \<comment> \<open>\<open>Path.glob('*')\<close>: the direct entries; nothing when the path is not a directory\<close>
  "glob_star fs d = (if is_dir fs d then map (\<lambda>n. d @ [n]) (entries fs d) else [])"

definition os_mkdir :: "fs \<Rightarrow> path \<Rightarrow> error + fs" where
  "os_mkdir fs p =
     (case lookup fs p of
        Some n \<Rightarrow> Inl (FileExistsError (path_str p))
      | None \<Rightarrow>
          (case lookup fs (parent p) of
             None \<Rightarrow> Inl (FileNotFoundError (path_str p))
           | Some (File c m) \<Rightarrow> Inl (NotADirectoryError (path_str p))
           | Some Dir \<Rightarrow> Inr (AList.update p Dir fs)))"

function path_mkdir :: "bool \<Rightarrow> bool \<Rightarrow> fs \<Rightarrow> path \<Rightarrow> error + fs" where
  "path_mkdir parents exist_ok fs p =
     (case os_mkdir fs p of
        Inr fs' \<Rightarrow> Inr fs'
      | Inl e \<Rightarrow>
          (case e of
             FileNotFoundError s \<Rightarrow>
               if \<not> parents \<or> p = [] then Inl e
               else (case path_mkdir True True fs (parent p) of
                       Inl e' \<Rightarrow> Inl e'
                     | Inr fs1 \<Rightarrow> path_mkdir False exist_ok fs1 p)
           | _ \<Rightarrow> if \<not> exist_ok \<or> \<not> is_dir fs p then Inl e else Inr fs))"
  by pat_completeness auto
termination
  by (relation "measure (\<lambda>(parents, exist_ok, fs, p). 2 * length p + (if parents then 1 else 0))")
     (auto simp: parent_def)

function os_makedirs :: "bool \<Rightarrow> fs \<Rightarrow> path \<Rightarrow> error + fs" where
  "os_makedirs exist_ok fs p =
     (let made = (if p \<noteq> [] \<and> \<not> exists fs (parent p)
                  then (case os_makedirs exist_ok fs (parent p) of
                          Inr fs1 \<Rightarrow> Inr fs1
                        | Inl e \<Rightarrow> (case e of FileExistsError s \<Rightarrow> Inr fs | _ \<Rightarrow> Inl e))
                  else Inr fs)
      in case made of
           Inl e \<Rightarrow> Inl e
         | Inr fs1 \<Rightarrow>
             (case os_mkdir fs1 p of
                Inr fs2 \<Rightarrow> Inr fs2
              | Inl e \<Rightarrow> if \<not> exist_ok \<or> \<not> is_dir fs1 p then Inl e else Inr fs1))"
  by pat_completeness auto
termination
  by (relation "measure (\<lambda>(exist_ok, fs, p). length p)") (auto simp: parent_def)

definition write_text :: "fs \<Rightarrow> path \<Rightarrow> string \<Rightarrow> error + fs" where
  \<comment> \<open>\<open>open(p, 'w')\<close> and one \<open>write\<close>: creates or truncates the file\<close>
  "write_text fs p s =
     (case lookup fs p of
        Some Dir \<Rightarrow> Inl (IsADirectoryError (path_str p))
      | Some (File c m) \<Rightarrow> Inr (AList.update p (File s m) fs)
      | None \<Rightarrow>
          (case lookup fs (parent p) of
             None \<Rightarrow> Inl (FileNotFoundError (path_str p))
           | Some (File c m) \<Rightarrow> Inl (NotADirectoryError (path_str p))
           | Some Dir \<Rightarrow> Inr (AList.update p (File s 0) fs)))"

definition copy2 :: "fs \<Rightarrow> path \<Rightarrow> path \<Rightarrow> error + fs" where
  \<comment> \<open>\<open>shutil.copy2\<close>: into the directory when the destination is one; content, then
      metadata\<close>
  "copy2 fs src dst0 =
     (let dst = (if is_dir fs dst0 then dst0 @ [name_of src] else dst0)
      in if src = dst \<and> exists fs src then Inl (SameFileError (path_str src))
         else case lookup fs src of
                None \<Rightarrow> Inl (FileNotFoundError (path_str src))
              | Some Dir \<Rightarrow> Inl (IsADirectoryError (path_str src))
              | Some (File c m) \<Rightarrow>
                  (case write_text fs dst c of
                     Inl e \<Rightarrow> Inl e
                   | Inr fs1 \<Rightarrow> Inr (AList.update dst (File c m) fs1)))"

subsection \<open>The world, external programs and the random generator\<close>

text \<open>
  The world is the file system, the state of the \<open>random\<close> module, and the log of what
  the script printed, ran and wrote. External programs and the generator are not part of
  the script: \<open>tool\<close> gives what a command line does to the file system and its exit
  status, or, when the program cannot be started, the errno of the failed start;
  \<open>seed\<close> is \<open>random.seed\<close> and \<open>randbelow\<close> the generator's draw of a number below
  a bound.
\<close>

datatype event =
    Print string
  | Exec "string list"
  | Copy path path
  | WriteFile path string

record 'g world =
  files :: fs
  rng :: 'g
  events :: "event list"

record 'g env =
  tool :: "string list \<Rightarrow> fs \<Rightarrow> nat + (int \<times> fs)"
  seed :: "int \<Rightarrow> 'g"
  randbelow :: "'g \<Rightarrow> nat \<Rightarrow> nat \<times> 'g"

type_synonym ('g, 'a) action = "'g world \<Rightarrow> (error + 'a) \<times> 'g world"

definition seq :: "('g, 'a) action \<Rightarrow> ('a \<Rightarrow> ('g, 'b) action) \<Rightarrow> ('g, 'b) action" where
  \<comment> \<open>one statement after another; an exception ends the sequence\<close>
  "seq m f w = (case m w of (Inl e, w') \<Rightarrow> (Inl e, w') | (Inr a, w') \<Rightarrow> f a w')"

definition emit :: "event \<Rightarrow> 'g world \<Rightarrow> 'g world" where
  "emit ev w = w\<lparr>events := events w @ [ev]\<rparr>"

definition say :: "string \<Rightarrow> ('g, unit) action" where
  \<comment> \<open>\<open>print\<close>\<close>
  "say s w = (Inr (), emit (Print s) w)"

definition on_files :: "(fs \<Rightarrow> error + fs) \<Rightarrow> ('g, unit) action" where
  "on_files f w = (case f (files w) of Inl e \<Rightarrow> (Inl e, w) | Inr fs' \<Rightarrow> (Inr (), w\<lparr>files := fs'\<rparr>))"

definition os_error :: "nat \<Rightarrow> string \<Rightarrow> error" where
  \<comment> \<open>the \<open>OSError\<close> that Python raises for an errno and a file name: the subclass for
      \<open>ENOENT\<close>, \<open>EPERM\<close>, \<open>EACCES\<close>, \<open>EEXIST\<close>, \<open>ENOTDIR\<close> and \<open>EISDIR\<close>;
      the other subclasses are not told apart\<close>
  "os_error n f =
     (if n = 2 then FileNotFoundError f
      else if n = 1 \<or> n = 13 then PermissionError f
      else if n = 17 then FileExistsError f
      else if n = 20 then NotADirectoryError f
      else if n = 21 then IsADirectoryError f
      else OSError n f)"

definition subprocess_run :: "'g env \<Rightarrow> string list \<Rightarrow> ('g, unit) action" where
  \<comment> \<open>\<open>subprocess.run(cmd, check=True)\<close>: a failed start raises the \<open>OSError\<close> of its
      errno with the program name, a non-zero exit raises \<open>CalledProcessError\<close>\<close>
  "subprocess_run env cmd w =
     (let w1 = emit (Exec cmd) w
      in case tool env cmd (files w) of
           Inl n \<Rightarrow> (Inl (os_error n (case cmd of [] \<Rightarrow> [] | c # _ \<Rightarrow> c)), w1)
         | Inr (rc, fs') \<Rightarrow>
             (if rc = 0 then Inr () else Inl (CalledProcessError rc cmd), w1\<lparr>files := fs'\<rparr>))"

fun shuffle_loop :: "('g \<Rightarrow> nat \<Rightarrow> nat \<times> 'g) \<Rightarrow> nat \<Rightarrow> 'g \<Rightarrow> 'a list \<Rightarrow> (error + 'a list) \<times> 'g" where
  "shuffle_loop rb 0 g x = (Inr x, g)"
| "shuffle_loop rb (Suc k) g x =
     (let i = Suc k; (j, g') = rb g (i + 1)
      in if i < length x \<and> j < length x
         then shuffle_loop rb k g' (x[i := x ! j, j := x ! i])
         else (Inl IndexError, g'))"

definition shuffle :: "('g \<Rightarrow> nat \<Rightarrow> nat \<times> 'g) \<Rightarrow> 'g \<Rightarrow> 'a list \<Rightarrow> (error + 'a list) \<times> 'g" where
  \<comment> \<open>\<open>random.shuffle\<close>: for \<open>i\<close> from \<open>len(x) - 1\<close> down to 1, swap \<open>x[i]\<close> with
      \<open>x[randbelow(i + 1)]\<close>\<close>
  "shuffle rb g x = shuffle_loop rb (length x - 1) g x"

subsection \<open>\<open>extract_frames_from_video\<close> (lines 10-22)\<close>

definition extract_frames_from_video :: "'g env \<Rightarrow> path \<Rightarrow> path \<Rightarrow> int \<Rightarrow> ('g, unit) action" where
  "extract_frames_from_video env video_path output_dir fps =
     seq (on_files (\<lambda>fs. os_makedirs True fs output_dir)) (\<lambda>_.
     (let cmd = [''ffmpeg'', ''-i'', path_str video_path, ''-vf'', ''fps='' @ int_str fps,
                 ''-qscale:v'', ''2'', path_str (output_dir @ [''frame_%04d.jpg''])]
      in seq (say (''Extracting frames at '' @ int_str fps @ '' fps...'')) (\<lambda>_.
         subprocess_run env cmd)))"

subsection \<open>\<open>split_images\<close> (lines 25-37)\<close>

definition split_images :: "'g env \<Rightarrow> path \<Rightarrow> pyfloat \<Rightarrow> pyfloat \<Rightarrow> ('g, partition) action" where
  "split_images env image_dir train_ratio val_ratio w =
     (case os_listdir (files w) image_dir of
        Inl e \<Rightarrow> (Inl e, w)
      | Inr names \<Rightarrow>
          (case shuffle (randbelow env) (rng w) (filter image_name names) of
             (Inl e, g) \<Rightarrow> (Inl e, w\<lparr>rng := g\<rparr>)
           | (Inr images, g) \<Rightarrow> (split_list images train_ratio val_ratio, w\<lparr>rng := g\<rparr>)))"

subsection \<open>\<open>run_colmap_pipeline\<close> (lines 81-122)\<close>

definition cmd_extract :: "path \<Rightarrow> path \<Rightarrow> string list" where
  "cmd_extract database_path image_dir =
     [''colmap'', ''feature_extractor'',
      ''--database_path'', path_str database_path,
      ''--image_path'', path_str image_dir,
      ''--ImageReader.single_camera'', ''1'',
      ''--ImageReader.camera_model'', ''OPENCV'',
      ''--SiftExtraction.use_gpu'', ''1'']"

definition cmd_match :: "path \<Rightarrow> string list" where
  "cmd_match database_path =
     [''colmap'', ''exhaustive_matcher'',
      ''--database_path'', path_str database_path,
      ''--SiftMatching.use_gpu'', ''1'']"

definition cmd_mapper :: "path \<Rightarrow> path \<Rightarrow> path \<Rightarrow> string list" where
  "cmd_mapper database_path image_dir sparse_dir =
     [''colmap'', ''mapper'',
      ''--database_path'', path_str database_path,
      ''--image_path'', path_str image_dir,
      ''--output_path'', path_str sparse_dir]"

definition cmd_convert :: "path \<Rightarrow> string list" where
  "cmd_convert model_dir =
     [''colmap'', ''model_converter'',
      ''--input_path'', path_str model_dir,
      ''--output_path'', path_str model_dir,
      ''--output_type'', ''TXT'']"

definition convert_if_present :: "'g env \<Rightarrow> path \<Rightarrow> ('g, unit) action" where
  \<comment> \<open>lines 111-120\<close>
  "convert_if_present env sparse_dir w =
     (let model_dir = sparse_dir @ [''0'']
      in if exists (files w) model_dir
         then seq (say ''Converting to text format...'') (\<lambda>_.
              subprocess_run env (cmd_convert model_dir)) w
         else (Inr (), w))"

definition run_colmap_pipeline :: "'g env \<Rightarrow> path \<Rightarrow> path \<Rightarrow> path \<Rightarrow> path \<Rightarrow> ('g, unit) action" where
  "run_colmap_pipeline env image_dir distorted_dir database_path sparse_dir =
     seq (say ''Running feature extraction...'') (\<lambda>_.
     seq (subprocess_run env (cmd_extract database_path image_dir)) (\<lambda>_.
     seq (say ''Running feature matching...'') (\<lambda>_.
     seq (subprocess_run env (cmd_match database_path)) (\<lambda>_.
     seq (say ''Running sparse reconstruction...'') (\<lambda>_.
     seq (subprocess_run env (cmd_mapper database_path image_dir sparse_dir)) (\<lambda>_.
     seq (convert_if_present env sparse_dir) (\<lambda>_.
     say ''COLMAP processing complete'')))))))"

subsection \<open>\<open>create_colmap_structure\<close> (lines 40-78)\<close>

definition build_layout :: "path \<Rightarrow> ('g, unit) action" where
  \<comment> \<open>lines 41-52: the four \<open>mkdir\<close> calls\<close>
  "build_layout base_dir =
     (let input_dir = base_dir @ [''input''];
          distorted_dir = base_dir @ [''distorted''];
          sparse_dir = distorted_dir @ [''sparse'']
      in seq (on_files (\<lambda>fs. path_mkdir True True fs base_dir)) (\<lambda>_.
         seq (on_files (\<lambda>fs. path_mkdir False True fs input_dir)) (\<lambda>_.
         seq (on_files (\<lambda>fs. path_mkdir False True fs distorted_dir)) (\<lambda>_.
         on_files (\<lambda>fs. path_mkdir False True fs sparse_dir)))))"

fun copy_images :: "path list \<Rightarrow> path \<Rightarrow> ('g, unit) action" where
  \<comment> \<open>lines 62-64, over the entries that \<open>glob\<close> listed\<close>
  "copy_images [] input_dir w = (Inr (), w)"
| "copy_images (img # rest) input_dir w =
     (if image_suffix (name_of img)
      then (case copy2 (files w) img (input_dir @ [name_of img]) of
              Inl e \<Rightarrow> (Inl e, w)
            | Inr fs' \<Rightarrow>
                copy_images rest input_dir
                  (emit (Copy img (input_dir @ [name_of img])) (w\<lparr>files := fs'\<rparr>)))
      else copy_images rest input_dir w)"

definition collect :: "path \<Rightarrow> path \<Rightarrow> ('g, unit) action" where
  "collect source_images input_dir w = copy_images (glob_star (files w) source_images) input_dir w"

definition items :: "partition \<Rightarrow> (string \<times> string list) list" where
  \<comment> \<open>\<open>splits.items()\<close>, in the order of the dict literal\<close>
  "items splits = [(''train'', train splits), (''val'', val splits), (''test'', test splits)]"

fun write_lists :: "path \<Rightarrow> (string \<times> string list) list \<Rightarrow> ('g, unit) action" where
  \<comment> \<open>lines 68-70\<close>
  "write_lists base_dir [] w = (Inr (), w)"
| "write_lists base_dir ((split_name, img_list) # rest) w =
     (let p = base_dir @ [split_name @ ''_list.txt''];
          text = join [CHR 0x0A] img_list
      in case write_text (files w) p text of
           Inl e \<Rightarrow> (Inl e, w)
         | Inr fs' \<Rightarrow> write_lists base_dir rest (emit (WriteFile p text) (w\<lparr>files := fs'\<rparr>)))"

definition counts_line :: "partition \<Rightarrow> string" where
  \<comment> \<open>line 72\<close>
  "counts_line splits =
     ''Train: '' @ nat_str (length (train splits)) @ '' | Val: '' @ nat_str (length (val splits))
       @ '' | Test: '' @ nat_str (length (test splits))"

definition create_colmap_structure ::
  "'g env \<Rightarrow> path \<Rightarrow> path \<Rightarrow> bool \<Rightarrow> int \<Rightarrow> bool \<Rightarrow> ('g, path) action" where
  "create_colmap_structure env output_dir image_source is_video fps run_colmap =
     (let base_dir = output_dir;
          input_dir = base_dir @ [''input''];
          distorted_dir = base_dir @ [''distorted''];
          sparse_dir = distorted_dir @ [''sparse''];
          database_path = distorted_dir @ [''database.db''];
          frames_dir = base_dir @ [''extracted_frames'']
      in seq (build_layout base_dir) (\<lambda>_.
         seq (if is_video
              then seq (extract_frames_from_video env image_source frames_dir fps)
                       (\<lambda>_ w. (Inr frames_dir, w))
              else (\<lambda>w. (Inr image_source, w))) (\<lambda>source_images.
         seq (say ''Copying images...'') (\<lambda>_.
         seq (collect source_images input_dir) (\<lambda>_.
         seq (split_images env input_dir (float_literal (4 / 5)) (float_literal (1 / 10))) (\<lambda>splits.
         seq (write_lists base_dir (items splits)) (\<lambda>_.
         seq (say (counts_line splits)) (\<lambda>_.
         seq (if run_colmap
              then run_colmap_pipeline env input_dir distorted_dir database_path sparse_dir
              else (\<lambda>w. (Inr (), w))) (\<lambda>_.
         seq (say (''Dataset ready: '' @ path_str base_dir)) (\<lambda>_ w.
         (Inr base_dir, w)))))))))))"

subsection \<open>\<open>main\<close> (lines 125-170)\<close>

datatype input_type = video | photos

record args =
  arg_input :: path
  arg_output :: path
  arg_type :: input_type
  arg_fps :: int
  arg_train_ratio :: pyfloat
  arg_val_ratio :: pyfloat
  arg_skip_colmap :: bool
  arg_skip_dependency_check :: bool

definition require_tool :: "'g env \<Rightarrow> string list \<Rightarrow> string \<Rightarrow> string \<Rightarrow> ('g, unit) action" where
  \<comment> \<open>lines 140-145 and 148-153: \<open>try\<close> the probe, \<open>except\<close> print and \<open>sys.exit(1)\<close>\<close>
  "require_tool env probe line1 line2 w =
     (case subprocess_run env probe w of
        (Inr u, w1) \<Rightarrow> (Inr (), w1)
      | (Inl e, w1) \<Rightarrow>
          (case e of
             CalledProcessError rc cmd \<Rightarrow> (Inl (SystemExit 1), emit (Print line2) (emit (Print line1) w1))
           | FileNotFoundError s \<Rightarrow> (Inl (SystemExit 1), emit (Print line2) (emit (Print line1) w1))
           | _ \<Rightarrow> (Inl e, w1)))"

definition dependency_check :: "'g env \<Rightarrow> args \<Rightarrow> ('g, unit) action" where
  "dependency_check env a =
     (if arg_skip_dependency_check a then (\<lambda>w. (Inr (), w))
      else seq (if arg_type a = video
                then require_tool env [''ffmpeg'', ''-version'']
                       ''ERROR: ffmpeg not found'' ''Install: sudo apt-get install ffmpeg''
                else (\<lambda>w. (Inr (), w))) (\<lambda>_.
           if \<not> arg_skip_colmap a
           then require_tool env [''colmap'', ''-h'']
                  ''ERROR: COLMAP not found'' ''Install: sudo apt-get install colmap''
           else (\<lambda>w. (Inr (), w))))"

definition check_input :: "args \<Rightarrow> ('g, unit) action" where
  \<comment> \<open>lines 157-162\<close>
  "check_input a w =
     (if arg_type a = video
      then (if \<not> is_file (files w) (arg_input a)
            then (Inl (ValueError (''Video file not found: '' @ path_str (arg_input a))), w)
            else (Inr (), w))
      else (if \<not> is_dir (files w) (arg_input a)
            then (Inl (ValueError (''Image directory not found: '' @ path_str (arg_input a))), w)
            else (Inr (), w)))"

definition main :: "'g env \<Rightarrow> args \<Rightarrow> ('g, unit) action" where
  \<comment> \<open>the value of \<open>create_colmap_structure\<close> is dropped: \<open>main\<close> returns \<open>None\<close>\<close>
  "main env a =
     seq (dependency_check env a) (\<lambda>_.
     seq (\<lambda>w. (Inr (), w\<lparr>rng := seed env 42\<rparr>)) (\<lambda>_.
     seq (check_input a) (\<lambda>_.
     seq (create_colmap_structure env (arg_output a) (arg_input a) (arg_type a = video)
            (arg_fps a) (\<not> arg_skip_colmap a)) (\<lambda>_ w.
     (Inr (), w)))))"

subsection \<open>What an exception carries\<close>


subsection \<open>Example worlds\<close>

definition ok_env :: "nat env" where
  \<comment> \<open>every program runs and exits with status 0; the generator always draws 0\<close>
  "ok_env = \<lparr> tool = (\<lambda>cmd fs. Inr (0, fs)), seed = nat, randbelow = (\<lambda>g n. (0, g)) \<rparr>"

definition failing_env :: "nat env" where
  \<comment> \<open>every program runs and exits with status 1\<close>
  "failing_env = \<lparr> tool = (\<lambda>cmd fs. Inr (1, fs)), seed = nat, randbelow = (\<lambda>g n. (0, g)) \<rparr>"



definition photo_dir :: fs where
  "photo_dir =
     [([''src''], Dir),
      ([''src'', ''a.jpg''], File ''A'' 7),
      ([''src'', ''b.PNG''], File ''B'' 8),
      ([''src'', ''c.txt''], File ''C'' 9),
      ([''src'', ''d.bmp''], File ''D'' 1),
      ([''src'', ''sub''], Dir),
      ([''src'', ''sub'', ''e.jpg''], File ''E'' 2)]"

definition start :: "nat world" where
  "start = \<lparr> files = photo_dir, rng = 0, events = [] \<rparr>"

definition layout_present :: "fs \<Rightarrow> path \<Rightarrow> bool" where
  \<comment> \<open>the four directories of lines 41-52 exist\<close>
  "layout_present fs base_dir =
     (is_dir fs base_dir \<and> is_dir fs (base_dir @ [''input'']) \<and>
      is_dir fs (base_dir @ [''distorted'']) \<and>
      is_dir fs (base_dir @ [''distorted'', ''sparse'']))"

definition built_dir :: fs where
  \<comment> \<open>an output directory from an earlier run, with files of its own\<close>
  "built_dir = photo_dir @
     [([''out''], Dir), ([''out'', ''input''], Dir), ([''out'', ''notes.txt''], File ''keep'' 3),
      ([''out'', ''distorted''], Dir), ([''out'', ''distorted'', ''sparse''], Dir),
      ([''out'', ''input'', ''old.jpg''], File ''O'' 4)]"

definition ten_names :: "string list" where
  "ten_names = [''a'', ''b'', ''c'', ''d'', ''e'', ''f'', ''g'', ''h'', ''i'', ''j'']"

definition retouched_dir :: fs where
  \<comment> \<open>the same names in the same order as \<open>photo_dir\<close>, other contents, other files
      elsewhere\<close>
  "retouched_dir =
     [([''elsewhere''], Dir),
      ([''src''], Dir),
      ([''src'', ''a.jpg''], File ''A2'' 1),
      ([''elsewhere'', ''x.jpg''], File ''X'' 1),
      ([''src'', ''b.PNG''], File ''B2'' 1),
      ([''src'', ''c.txt''], File ''C2'' 1),
      ([''src'', ''d.bmp''], File ''D2'' 1),
      ([''src'', ''sub''], Dir)]"

definition single_photo :: fs where
  "single_photo = [([''src''], Dir), ([''src'', ''a.jpg''], File ''A'' 7)]"

definition copied_count :: "event list \<Rightarrow> nat" where
  \<comment> \<open>how many \<open>copy2\<close> calls the log holds\<close>
  "copied_count evs = length (filter (\<lambda>e. case e of Copy s d \<Rightarrow> True | _ \<Rightarrow> False) evs)"

subsection \<open>Reading the log\<close>

definition colmap_stage :: "event \<Rightarrow> bool" where
  \<comment> \<open>the event is an invocation of \<open>colmap\<close>\<close>
  "colmap_stage ev = (case ev of Exec cmd \<Rightarrow> (case cmd of [] \<Rightarrow> False | c # rest \<Rightarrow> c = ''colmap'')
                      | _ \<Rightarrow> False)"

definition quiet_step :: "'g world \<Rightarrow> 'g world \<Rightarrow> bool" where
  \<comment> \<open>the log of the second world extends the log of the first, and \<open>colmap\<close> is not
      invoked in between\<close>
  "quiet_step w w' =
     (take (length (events w)) (events w') = events w \<and>
      list_all (\<lambda>e. \<not> colmap_stage e) (drop (length (events w)) (events w')))"

definition quiet :: "('g, 'a) action \<Rightarrow> bool" where
  "quiet m = (\<forall>w r w'. m w = (r, w') \<longrightarrow> quiet_step w w')"

definition grows :: "('g, 'a) action \<Rightarrow> bool" where
  \<comment> \<open>the action only appends to the log\<close>
  "grows m = (\<forall>w r w'. m w = (r, w') \<longrightarrow> prefix (events w) (events w'))"

definition content_of :: "fs \<Rightarrow> path \<Rightarrow> string option" where
  "content_of fs p = (case lookup fs p of Some (File c m) \<Rightarrow> Some c | _ \<Rightarrow> None)"

definition lists_on_disk :: "fs \<Rightarrow> path \<Rightarrow> partition \<Rightarrow> bool" where
  \<comment> \<open>the three list files hold the newline-joined names of the partition\<close>
  "lists_on_disk fs base_dir splits =
     list_all (\<lambda>(split_name, img_list).
                 content_of fs (base_dir @ [split_name @ ''_list.txt'']) = Some (join [CHR 0x0A] img_list))
       (items splits)"

definition four_photos :: fs where
  "four_photos =
     [([''photos''], Dir),
      ([''photos'', ''p1.jpg''], File ''1'' 0),
      ([''photos'', ''p2.jpg''], File ''2'' 0),
      ([''photos'', ''p3.jpg''], File ''3'' 0),
      ([''photos'', ''p4.jpg''], File ''4'' 0)]"

definition cli_args :: args where
  \<comment> \<open>\<open>--input photos --output out --type photos --train_ratio 0.5 --val_ratio 0.25
      --skip_colmap\<close>\<close>
  "cli_args = \<lparr> arg_input = [''photos''], arg_output = [''out''], arg_type = photos, arg_fps = 2,
                 arg_train_ratio = float_literal (1 / 2), arg_val_ratio = float_literal (1 / 4),
                 arg_skip_colmap = True, arg_skip_dependency_check = False \<rparr>"

subsection \<open>The recognized extensions, in the spec's words\<close>

text \<open>
  Section 4.2 of the spec selects the entries "whose extension, case-insensitively, is in
  \<open>recognized_extensions\<close> (\<open>.png\<close>, \<open>.jpg\<close>, \<open>.jpeg\<close>)". The definitions below say
  this without the code's \<open>suffix\<close> and \<open>lower\<close>: the extension of a name is its part
  from the last dot on, when something stands before that dot and something after it,
  and two strings are the same ignoring case when they agree letter by letter up to the
  case of the 26 letters. They are compared with the code's filter in
  \<open>image_suffix_recognized\<close>.
\<close>

definition extension :: "string \<Rightarrow> string" where
  "extension name =
     (let after = rev (takeWhile (\<lambda>c. c \<noteq> CHR ''.'') (rev name));
          before = rev (drop 1 (dropWhile (\<lambda>c. c \<noteq> CHR ''.'') (rev name)))
      in if before = [] \<or> after = [] then [] else CHR ''.'' # after)"

definition letter_cases :: "(char \<times> char) list" where
  "letter_cases = zip ''abcdefghijklmnopqrstuvwxyz'' ''ABCDEFGHIJKLMNOPQRSTUVWXYZ''"

definition same_letter :: "char \<Rightarrow> char \<Rightarrow> bool" where
  "same_letter c d = (c = d \<or> (c, d) \<in> set letter_cases \<or> (d, c) \<in> set letter_cases)"

definition same_ignoring_case :: "string \<Rightarrow> string \<Rightarrow> bool" where
  "same_ignoring_case s t = list_all2 same_letter s t"

definition recognized_extensions :: "string list" where
  "recognized_extensions = [''.png'', ''.jpg'', ''.jpeg'']"

definition recognized :: "string \<Rightarrow> bool" where
  "recognized name = list_ex (same_ignoring_case (extension name)) recognized_extensions"

definition blocked_dir :: fs where
  \<comment> \<open>an input directory in which a directory has the name of a source image\<close>
  "blocked_dir = photo_dir @
     [([''out''], Dir), ([''out'', ''input''], Dir), ([''out'', ''input'', ''a.jpg''], Dir)]"

section \<open>Properties\<close>

text \<open>The recursive equations are unfolded by hand, one call at a time.\<close>

declare path_mkdir.simps [simp del]
declare os_makedirs.simps [simp del]
declare nat_str.simps [simp del]

subsection \<open>Sequencing\<close>

lemma seq_Inl: "m w = (Inl e, w') \<Longrightarrow> seq m f w = (Inl e, w')"
  by (simp add: seq_def)

lemma seq_Inr: "m w = (Inr a, w') \<Longrightarrow> seq m f w = f a w'"
  by (simp add: seq_def)

lemma seq_say: "seq (say s) f w = f () (emit (Print s) w)"
  by (simp add: seq_def say_def)

lemma files_emit: "files (emit ev w) = files w"
  by (simp add: emit_def)

lemma rng_emit: "rng (emit ev w) = rng w"
  by (simp add: emit_def)

lemma events_emit: "events (emit ev w) = events w @ [ev]"
  by (simp add: emit_def)

subsection \<open>The reconstruction pipeline\<close>





text \<open>
  C6. If the three first stages exit with status 0 and \<open>sparse_dir/0\<close> does not exist
  after the mapper, \<open>run_colmap_pipeline\<close> returns normally, and what it has printed and
  run is exactly the three stages and the closing line: the model converter is not
  invoked.
\<close>

theorem conversion_skipped_without_model:
  assumes "tool env (cmd_extract database_path image_dir) (files w) = Inr (0, fs1)"
    and "tool env (cmd_match database_path) fs1 = Inr (0, fs2)"
    and "tool env (cmd_mapper database_path image_dir sparse_dir) fs2 = Inr (0, fs3)"
    and "\<not> exists fs3 (sparse_dir @ [''0''])"
  shows "run_colmap_pipeline env image_dir distorted_dir database_path sparse_dir w =
           (Inr (), w\<lparr>files := fs3,
                      events := events w @
                        [Print ''Running feature extraction...'',
                         Exec (cmd_extract database_path image_dir),
                         Print ''Running feature matching...'',
                         Exec (cmd_match database_path),
                         Print ''Running sparse reconstruction...'',
                         Exec (cmd_mapper database_path image_dir sparse_dir),
                         Print ''COLMAP processing complete'']\<rparr>)"
  using assms
  by (simp add: run_colmap_pipeline_def seq_def subprocess_run_def Let_def emit_def
      convert_if_present_def say_def)

theorem conversion_skipped_without_model_witness:
  "run_colmap_pipeline ok_env [''out'', ''input''] [''out'', ''distorted'']
      [''out'', ''distorted'', ''database.db''] [''out'', ''distorted'', ''sparse''] start =
   (Inr (), start\<lparr>files := photo_dir,
                  events := events start @
                    [Print ''Running feature extraction...'',
                     Exec (cmd_extract [''out'', ''distorted'', ''database.db''] [''out'', ''input'']),
                     Print ''Running feature matching...'',
                     Exec (cmd_match [''out'', ''distorted'', ''database.db'']),
                     Print ''Running sparse reconstruction...'',
                     Exec (cmd_mapper [''out'', ''distorted'', ''database.db''] [''out'', ''input'']
                             [''out'', ''distorted'', ''sparse'']),
                     Print ''COLMAP processing complete'']\<rparr>)"
  by (rule conversion_skipped_without_model[where ?fs1.0 = photo_dir and ?fs2.0 = photo_dir])
     (simp_all add: ok_env_def start_def exists_def lookup_def photo_dir_def)

subsection \<open>The directory layout\<close>

lemma path_mkdir_existing: "is_dir fs p \<Longrightarrow> path_mkdir parents True fs p = Inr fs"
  by (subst path_mkdir.simps) (simp add: os_mkdir_def is_dir_def)

lemma on_files_same: "f (files w) = Inr (files w) \<Longrightarrow> on_files f w = (Inr (), w)"
  by (simp add: on_files_def)

lemma lookup_os_mkdir:
  "os_mkdir fs p = Inr fs' \<Longrightarrow> lookup fs' q = (if q = p then Some Dir else lookup fs q)"
  by (auto simp: os_mkdir_def lookup_def update_conv' split: option.splits node.splits if_splits)

lemma path_mkdir_result:
  "path_mkdir parents exist_ok fs p = Inr fs' \<Longrightarrow>
     is_dir fs' p \<and> (\<forall>q. is_dir fs q \<longrightarrow> is_dir fs' q)"
proof (induction parents exist_ok fs p arbitrary: fs' rule: path_mkdir.induct)
  case (1 parents exist_ok fs p)
  show ?case
  proof (cases "os_mkdir fs p")
    case (Inr fs1)
    with "1.prems" have "fs' = fs1" by (subst (asm) path_mkdir.simps) simp
    with Inr show ?thesis by (auto simp: is_dir_def lookup_os_mkdir)
  next
    case (Inl e)
    show ?thesis
    proof (cases "\<exists>s. e = FileNotFoundError s")
      case False
      with Inl "1.prems" have "fs' = fs \<and> is_dir fs p"
        by (subst (asm) path_mkdir.simps) (auto split: error.splits if_splits)
      then show ?thesis by simp
    next
      case True
      then obtain s where e: "e = FileNotFoundError s" by blast
      with Inl "1.prems" have np: "parents" "p \<noteq> []"
        by (subst (asm) path_mkdir.simps, auto split: if_splits)+
      from Inl e np "1.prems" obtain fs1 where
        a: "path_mkdir True True fs (parent p) = Inr fs1" and
        b: "path_mkdir False exist_ok fs1 p = Inr fs'"
        by (subst (asm) path_mkdir.simps) (auto split: sum.splits)
      from "1.IH"(1)[OF Inl e _ a] np have s1: "\<forall>q. is_dir fs q \<longrightarrow> is_dir fs1 q"
        by simp
      from "1.IH"(2)[OF Inl e _ a b] np
      have s2: "is_dir fs' p \<and> (\<forall>q. is_dir fs1 q \<longrightarrow> is_dir fs' q)"
        by simp
      from s1 s2 show ?thesis by blast
    qed
  qed
qed

text \<open>A run of the layout builder that returns leaves the layout in place.\<close>

lemma build_layout_establishes:
  assumes "build_layout base_dir w = (Inr (), w1)"
  shows "layout_present (files w1) base_dir"
  using assms
  by (auto simp: build_layout_def layout_present_def Let_def seq_def on_files_def
      split: sum.splits dest!: path_mkdir_result)

text \<open>
  C9. Run against an output directory that already has the layout, the layout builder
  returns normally and leaves the whole world as it was: no directory is added or
  removed, and no file inside the output directory is deleted or changed.
\<close>

theorem layout_idempotent:
  assumes "layout_present (files w) base_dir"
  shows "build_layout base_dir w = (Inr (), w)"
  using assms
  by (simp add: build_layout_def layout_present_def Let_def seq_def on_files_same
      path_mkdir_existing)

theorem layout_idempotent_witness:
  "build_layout [''out''] (start\<lparr>files := built_dir\<rparr>) = (Inr (), start\<lparr>files := built_dir\<rparr>)"
  by (rule layout_idempotent)
     (simp add: layout_present_def is_dir_def lookup_def built_dir_def photo_dir_def)

subsection \<open>The command line\<close>

lemma check_input_ratios:
  "check_input (a\<lparr>arg_train_ratio := x, arg_val_ratio := y\<rparr>) = check_input a"
  by (rule ext) (simp add: check_input_def)

text \<open>
  C2 does not hold of the code: \<open>main\<close> never reads \<open>args.train_ratio\<close> and
  \<open>args.val_ratio\<close>, and \<open>create_colmap_structure\<close> calls \<open>split_images\<close> with its
  defaults 0.8 and 0.1. Whatever ratios are given on the command line, the run is the
  same. With four photos and the ratios 0.5 and 0.25 on the command line, the lists
  written hold three, no and one name, where the ratios given would cut the same shuffled
  list into two, one and one.
\<close>

theorem cli_ratios_ignored:
  "main env (a\<lparr>arg_train_ratio := x, arg_val_ratio := y\<rparr>) w = main env a w
   \<and> map (content_of (files (snd (main ok_env cli_args (start\<lparr>files := four_photos\<rparr>)))))
        [[''out'', ''train_list.txt''], [''out'', ''val_list.txt''], [''out'', ''test_list.txt'']]
       = [Some (join [CHR 0x0A] [''p2.jpg'', ''p3.jpg'', ''p4.jpg'']), Some [], Some ''p1.jpg'']
   \<and> split_list [''p2.jpg'', ''p3.jpg'', ''p4.jpg'', ''p1.jpg'']
         (arg_train_ratio cli_args) (arg_val_ratio cli_args)
       = Inr \<lparr> train = [''p2.jpg'', ''p3.jpg''], val = [''p4.jpg''], test = [''p1.jpg''] \<rparr>"
proof (intro conjI)
  show "main env (a\<lparr>arg_train_ratio := x, arg_val_ratio := y\<rparr>) w = main env a w"
    by (simp add: main_def dependency_check_def check_input_ratios)
  show "map (content_of (files (snd (main ok_env cli_args (start\<lparr>files := four_photos\<rparr>)))))
        [[''out'', ''train_list.txt''], [''out'', ''val_list.txt''], [''out'', ''test_list.txt'']]
       = [Some (join [CHR 0x0A] [''p2.jpg'', ''p3.jpg'', ''p4.jpg'']), Some [], Some ''p1.jpg'']"
    by code_simp
  show "split_list [''p2.jpg'', ''p3.jpg'', ''p4.jpg'', ''p1.jpg'']
         (arg_train_ratio cli_args) (arg_val_ratio cli_args)
       = Inr \<lparr> train = [''p2.jpg'', ''p3.jpg''], val = [''p4.jpg''], test = [''p1.jpg''] \<rparr>"
    by code_simp
qed

subsection \<open>The dataset splitter\<close>

lemma pow2_pos: "0 < pow2 k"
  by (simp add: pow2_def)

lemma round_even_nonneg: "0 \<le> x \<Longrightarrow> 0 \<le> round_even x"
  by (simp add: round_even_def Let_def)

lemma fl_nonneg: "0 \<le> q \<Longrightarrow> 0 \<le> fl q"
  using pow2_pos by (simp add: fl_def Let_def round_even_nonneg less_imp_le)

lemma overflow_Finite: "overflow z = Finite x \<Longrightarrow> x = z"
  by (simp add: overflow_def split: if_splits)

lemma overflow_nonneg: "0 \<le> z \<Longrightarrow> overflow z \<noteq> NegInf"
  by (simp add: overflow_def)

lemma float_of_int_nonneg: "float_of_int (int n) = Inr a \<Longrightarrow> 0 \<le> a"
  by (auto simp: float_of_int_def fl_nonneg split: pyfloat.splits dest!: overflow_Finite)

lemma cut_nonneg:
  assumes "int_times_float (int n) (Finite b) = Inr y" and "0 \<le> b" and "py_int y = Inr k"
  shows "\<exists>x. y = Finite x \<and> 0 \<le> x \<and> k = \<lfloor>x\<rfloor>"
proof -
  from assms(1) obtain a where a: "float_of_int (int n) = Inr a" and y: "y = overflow (fl (a * b))"
    by (auto simp: int_times_float_def split: sum.splits)
  from a have "0 \<le> a" by (rule float_of_int_nonneg)
  with assms(2) have nn: "0 \<le> fl (a * b)" by (simp add: fl_nonneg)
  from assms(3) obtain x where x: "y = Finite x"
    by (cases y) (simp_all add: py_int_def)
  with y have "x = fl (a * b)" by (simp add: overflow_Finite)
  with nn x assms(3) show ?thesis by (auto simp: py_int_def)
qed


lemma split_list_cuts:
  assumes "split_list images (Finite a) (Finite b) = Inr p" and "0 \<le> a" and "0 \<le> b"
  shows "\<exists>x y. int_times_float (int (length images)) (Finite a) = Inr (Finite x)
             \<and> int_times_float (int (length images)) (Finite b) = Inr (Finite y)
             \<and> 0 \<le> x \<and> 0 \<le> y
             \<and> p = \<lparr> train = py_slice images None (Some \<lfloor>x\<rfloor>),
                      val = py_slice images (Some \<lfloor>x\<rfloor>) (Some (\<lfloor>x\<rfloor> + \<lfloor>y\<rfloor>)),
                      test = py_slice images (Some (\<lfloor>x\<rfloor> + \<lfloor>y\<rfloor>)) None \<rparr>"
proof -
  from assms(1) obtain u te v vn where
    u: "int_times_float (int (length images)) (Finite a) = Inr u" and te: "py_int u = Inr te" and
    v: "int_times_float (int (length images)) (Finite b) = Inr v" and vn: "py_int v = Inr vn" and
    p: "p = \<lparr> train = py_slice images None (Some te),
              val = py_slice images (Some te) (Some (te + vn)),
              test = py_slice images (Some (te + vn)) None \<rparr>"
    by (auto simp: split_list_def Let_def split: sum.splits)
  from cut_nonneg[OF u assms(2) te] obtain x where x: "u = Finite x" "0 \<le> x" "te = \<lfloor>x\<rfloor>" by blast
  from cut_nonneg[OF v assms(3) vn] obtain y where y: "v = Finite y" "0 \<le> y" "vn = \<lfloor>y\<rfloor>" by blast
  from u v p x y show ?thesis by auto
qed

lemma slices_append:
  assumes "0 \<le> i" and "0 \<le> j"
  shows "py_slice xs None (Some i) @ py_slice xs (Some i) (Some (i + j)) @ py_slice xs (Some (i + j)) None = xs"
proof -
  define a where "a = min (length xs) (nat i)"
  define b where "b = min (length xs) (nat (i + j))"
  from assms have ab: "a \<le> b" "b \<le> length xs" by (auto simp: a_def b_def)
  have h1: "drop (b - a) (drop a xs) = drop b xs" using ab by simp
  have h2: "take (b - a) (drop a xs) @ drop (b - a) (drop a xs) = drop a xs"
    by (rule append_take_drop_id)
  have h3: "take a xs @ drop a xs = xs" by (rule append_take_drop_id)
  from h2[unfolded h1] h3 have "take a xs @ take (b - a) (drop a xs) @ drop b xs = xs"
    by (simp only:)
  moreover have "py_slice xs None (Some i) = take a xs"
    using assms by (simp add: py_slice_def slice_index_def a_def Let_def)
  moreover have "py_slice xs (Some i) (Some (i + j)) = take (b - a) (drop a xs)"
    using assms by (simp add: py_slice_def slice_index_def a_def b_def Let_def)
  moreover have "py_slice xs (Some (i + j)) None = drop b xs"
    using assms by (simp add: py_slice_def slice_index_def b_def Let_def)
  ultimately show ?thesis by (simp only:)
qed

lemma split_list_append:
  assumes "split_list images (Finite a) (Finite b) = Inr p" and "0 \<le> a" and "0 \<le> b"
  shows "train p @ val p @ test p = images"
  using split_list_cuts[OF assms]
proof (elim exE conjE)
  fix x y :: rat
  assume xy: "0 \<le> x" "0 \<le> y"
    and p: "p = \<lparr> train = py_slice images None (Some \<lfloor>x\<rfloor>),
              val = py_slice images (Some \<lfloor>x\<rfloor>) (Some (\<lfloor>x\<rfloor> + \<lfloor>y\<rfloor>)),
              test = py_slice images (Some (\<lfloor>x\<rfloor> + \<lfloor>y\<rfloor>)) None \<rparr>"
  from xy have h: "0 \<le> \<lfloor>x\<rfloor>" "0 \<le> \<lfloor>y\<rfloor>" by simp_all
  show ?thesis by (simp only: p partition.select_convs slices_append[OF h])
qed

text \<open>The literals 0.8 and 0.1 are the binary64 values nearest to 4/5 and 1/10.\<close>

lemma ratio_literals:
  "float_literal (4 / 5) = Finite (3602879701896397 / 4503599627370496)"
  "float_literal (1 / 10) = Finite (3602879701896397 / 36028797018963968)"
  by code_simp+

lemma ten_times_ratios:
  "int_times_float 10 (float_literal (4 / 5)) = Inr (Finite 8)"
  "int_times_float 10 (float_literal (1 / 10)) = Inr (Finite 1)"
  by code_simp+

lemma split_of_ten:
  assumes "length images = 10"
  shows "split_list images (float_literal (4 / 5)) (float_literal (1 / 10)) =
           Inr \<lparr> train = take 8 images, val = take 1 (drop 8 images), test = drop 9 images \<rparr>"
  using assms
  by (simp add: split_list_def ten_times_ratios py_int_def py_slice_def slice_index_def)

lemma shuffle_loop_mset:
  "shuffle_loop rb k g x = (Inr y, g') \<Longrightarrow> mset y = mset x"
proof (induction k arbitrary: g x)
  case 0
  then show ?case by simp
next
  case (Suc k)
  obtain j g1 where r: "rb g (Suc k + 1) = (j, g1)" by (cases "rb g (Suc k + 1)")
  with Suc.prems have b: "Suc k < length x" "j < length x"
    and c: "shuffle_loop rb k g1 (x[Suc k := x ! j, j := x ! Suc k]) = (Inr y, g')"
    by (auto simp: Let_def split: if_splits)
  from Suc.IH[OF c] have "mset y = mset (x[Suc k := x ! j, j := x ! Suc k])" .
  also have "\<dots> = mset x" using b by (simp add: mset_swap)
  finally show ?case .
qed

lemma shuffle_mset: "shuffle rb g x = (Inr y, g') \<Longrightarrow> mset y = mset x"
  by (simp add: shuffle_def shuffle_loop_mset)

lemma name_of_snoc: "name_of (d @ [n]) = n"
  by (simp add: name_of_def)

lemma entries_distinct:
  assumes "distinct (map fst fs)"
  shows "distinct (entries fs d)"
proof -
  let ?sel = "filter (\<lambda>(p, n). p \<noteq> [] \<and> parent p = d) fs"
  have d1: "distinct (map fst ?sel)" using assms by (rule distinct_map_filter)
  have inj: "inj_on name_of (set (map fst ?sel))"
  proof (rule inj_onI)
    fix p q assume "p \<in> set (map fst ?sel)" "q \<in> set (map fst ?sel)" "name_of p = name_of q"
    then have "p \<noteq> []" "q \<noteq> []" "butlast p = butlast q" "last p = last q"
      by (auto simp: parent_def name_of_def last_rev split: list.splits)
    then show "p = q" by (metis append_butlast_last_id)
  qed
  have "entries fs d = map name_of (map fst ?sel)" by (simp add: entries_def)
  with d1 inj show ?thesis by (simp add: distinct_map del: map_map)
qed

lemma py_slice_bounds:
  "py_slice xs None hi = py_slice xs (Some 0) hi"
  "py_slice xs lo None = py_slice xs lo (Some (int (length xs)))"
  by (simp_all add: py_slice_def slice_index_def)

text \<open>
  C3. For non-negative finite ratios, whenever \<open>split_list\<close> returns, the cut points are
  the floors of the two float products \<open>n * train_ratio\<close> and \<open>n * val_ratio\<close>, each
  floored on its own, and the three lists are the slices \<open>images[0:train_end]\<close>,
  \<open>images[train_end:val_end]\<close> and \<open>images[val_end:n]\<close>. For ten images and the ratios
  0.8 and 0.1 the lists are the first eight, the ninth and the tenth image.
\<close>

theorem split_cut_points:
  "(split_list images (Finite a) (Finite b) = Inr p \<and> 0 \<le> a \<and> 0 \<le> b \<longrightarrow>
      (\<exists>x y. int_times_float (int (length images)) (Finite a) = Inr (Finite x)
           \<and> int_times_float (int (length images)) (Finite b) = Inr (Finite y)
           \<and> p = \<lparr> train = py_slice images (Some 0) (Some \<lfloor>x\<rfloor>),
                    val = py_slice images (Some \<lfloor>x\<rfloor>) (Some (\<lfloor>x\<rfloor> + \<lfloor>y\<rfloor>)),
                    test = py_slice images (Some (\<lfloor>x\<rfloor> + \<lfloor>y\<rfloor>))
                             (Some (int (length images))) \<rparr>))
   \<and> (length images = 10 \<longrightarrow>
        split_list images (float_literal (4 / 5)) (float_literal (1 / 10)) =
          Inr \<lparr> train = take 8 images, val = take 1 (drop 8 images), test = drop 9 images \<rparr>)"
proof (intro conjI impI)
  assume h: "split_list images (Finite a) (Finite b) = Inr p \<and> 0 \<le> a \<and> 0 \<le> b"
  then have "split_list images (Finite a) (Finite b) = Inr p" "0 \<le> a" "0 \<le> b" by simp_all
  from split_list_cuts[OF this] show
    "\<exists>x y. int_times_float (int (length images)) (Finite a) = Inr (Finite x)
           \<and> int_times_float (int (length images)) (Finite b) = Inr (Finite y)
           \<and> p = \<lparr> train = py_slice images (Some 0) (Some \<lfloor>x\<rfloor>),
                    val = py_slice images (Some \<lfloor>x\<rfloor>) (Some (\<lfloor>x\<rfloor> + \<lfloor>y\<rfloor>)),
                    test = py_slice images (Some (\<lfloor>x\<rfloor> + \<lfloor>y\<rfloor>))
                             (Some (int (length images))) \<rparr>"
    by (auto simp: py_slice_bounds[symmetric])
next
  assume "length images = 10"
  then show "split_list images (float_literal (4 / 5)) (float_literal (1 / 10)) =
          Inr \<lparr> train = take 8 images, val = take 1 (drop 8 images), test = drop 9 images \<rparr>"
    by (rule split_of_ten)
qed

theorem split_cut_points_witness:
  "(\<exists>x y. int_times_float (int (length ten_names)) (Finite (1 / 2)) = Inr (Finite x)
         \<and> int_times_float (int (length ten_names)) (Finite (1 / 4)) = Inr (Finite y)
         \<and> \<lparr> train = [''a'', ''b'', ''c'', ''d'', ''e''], val = [''f'', ''g''],
               test = [''h'', ''i'', ''j''] \<rparr>
             = \<lparr> train = py_slice ten_names (Some 0) (Some \<lfloor>x\<rfloor>),
                  val = py_slice ten_names (Some \<lfloor>x\<rfloor>) (Some (\<lfloor>x\<rfloor> + \<lfloor>y\<rfloor>)),
                  test = py_slice ten_names (Some (\<lfloor>x\<rfloor> + \<lfloor>y\<rfloor>))
                           (Some (int (length ten_names))) \<rparr>)
   \<and> split_list ten_names (float_literal (4 / 5)) (float_literal (1 / 10)) =
          Inr \<lparr> train = take 8 ten_names, val = take 1 (drop 8 ten_names),
                test = drop 9 ten_names \<rparr>"
proof -
  have h: "split_list ten_names (Finite (1 / 2)) (Finite (1 / 4)) =
             Inr \<lparr> train = [''a'', ''b'', ''c'', ''d'', ''e''], val = [''f'', ''g''],
                   test = [''h'', ''i'', ''j''] \<rparr>"
    by code_simp
  have l: "length ten_names = 10" by (simp add: ten_names_def)
  from split_cut_points[of ten_names "1 / 2" "1 / 4"
      "\<lparr> train = [''a'', ''b'', ''c'', ''d'', ''e''], val = [''f'', ''g''],
         test = [''h'', ''i'', ''j''] \<rparr>"] h l
  show ?thesis by simp
qed

text \<open>
  C1. For non-negative finite ratios and a file system without duplicate paths, the
  partition that \<open>split_images\<close> returns has as many names as the directory has image
  names, its three lists are pairwise disjoint and without repetition, and together
  they hold exactly the image names of the directory. (The bound
  \<open>train_ratio + val_ratio \<le> 1\<close> is not needed: a slice bound beyond the end is
  clamped.)
\<close>

theorem partition_complete:
  assumes "split_images env image_dir (Finite a) (Finite b) w = (Inr p, w')"
    and "0 \<le> a" and "0 \<le> b"
    and "distinct (map fst (files w))"
  shows "length (train p) + length (val p) + length (test p) =
           length (filter image_name (entries (files w) image_dir))
       \<and> set (train p) \<inter> set (val p) = {}
       \<and> set (train p) \<inter> set (test p) = {}
       \<and> set (val p) \<inter> set (test p) = {}
       \<and> distinct (train p @ val p @ test p)
       \<and> set (train p) \<union> set (val p) \<union> set (test p) =
           set (filter image_name (entries (files w) image_dir))"
proof -
  let ?names = "filter image_name (entries (files w) image_dir)"
  from assms(1) obtain images g where
    sh: "shuffle (randbelow env) (rng w) ?names = (Inr images, g)" and
    sp: "split_list images (Finite a) (Finite b) = Inr p"
    by (auto simp: split_images_def os_listdir_def split: option.splits node.splits sum.splits prod.splits)
  from sh have m: "mset images = mset ?names" by (rule shuffle_mset)
  from split_list_append[OF sp assms(2,3)] have ap: "train p @ val p @ test p = images" .
  from assms(4) have "distinct ?names" by (simp add: entries_distinct)
  with m have d: "distinct images" by (metis mset_eq_imp_distinct_iff)
  from m have s: "set images = set ?names" by (rule mset_eq_setD)
  from m have l: "length images = length ?names" by (rule mset_eq_length)
  from d have d': "distinct (train p @ val p @ test p)" by (simp only: ap)
  from s have s': "set (train p @ val p @ test p) = set ?names" by (simp only: ap)
  from l have l': "length (train p @ val p @ test p) = length ?names" by (simp only: ap)
  from d' s' l' show ?thesis by auto
qed

theorem partition_complete_witness:
  "length (train \<lparr> train = [''b.PNG''], val = [], test = [''a.jpg''] \<rparr>)
     + length (val \<lparr> train = [''b.PNG''], val = [], test = [''a.jpg''] \<rparr>)
     + length (test \<lparr> train = [''b.PNG''], val = [], test = [''a.jpg''] \<rparr>) =
           length (filter image_name (entries (files start) [''src'']))
   \<and> set [''b.PNG''] \<union> set [] \<union> set [''a.jpg''] =
           set (filter image_name (entries (files start) [''src'']))"
proof -
  have h: "split_images ok_env [''src''] (Finite (1 / 2)) (Finite (1 / 4)) start =
             (Inr \<lparr> train = [''b.PNG''], val = [], test = [''a.jpg''] \<rparr>, start)"
    by code_simp
  have d: "distinct (map fst (files start))"
    by (simp add: start_def photo_dir_def)
  from partition_complete[OF h _ _ d] show ?thesis by simp
qed

subsection \<open>Determinism\<close>

lemma subprocess_run_rng:
  "subprocess_run env cmd (w\<lparr>rng := g\<rparr>) =
     (fst (subprocess_run env cmd w), (snd (subprocess_run env cmd w))\<lparr>rng := g\<rparr>)"
  by (simp add: subprocess_run_def emit_def Let_def split: sum.splits prod.splits)

lemma require_tool_rng:
  "require_tool env probe l1 l2 (w\<lparr>rng := g\<rparr>) =
     (fst (require_tool env probe l1 l2 w), (snd (require_tool env probe l1 l2 w))\<lparr>rng := g\<rparr>)"
  by (simp add: require_tool_def subprocess_run_rng emit_def split: sum.splits error.splits prod.splits)

lemma dependency_check_rng:
  "dependency_check env a (w\<lparr>rng := g\<rparr>) =
     (fst (dependency_check env a w), (snd (dependency_check env a w))\<lparr>rng := g\<rparr>)"
  by (simp add: dependency_check_def seq_def require_tool_rng split: sum.splits prod.splits)

lemma seq_reseed: "seq (\<lambda>w. (Inr (), w\<lparr>rng := x\<rparr>)) f w = f () (w\<lparr>rng := x\<rparr>)"
  by (simp add: seq_def)

text \<open>
  C4. After \<open>random.seed(s)\<close>, the partition that \<open>split_images\<close> computes depends on
  nothing but the listing of the image directory: two worlds that enumerate the same
  names in the same order give the same outcome, whatever else differs between them.
  And a run of \<open>main\<close> does not depend on the state of the generator it starts with,
  because \<open>main\<close> seeds it with 42 before the split: the outcome, the files and the log
  are the same.
\<close>

theorem splitter_deterministic:
  "(os_listdir (files w1) image_dir = os_listdir (files w2) image_dir \<longrightarrow>
      fst (split_images env image_dir train_ratio val_ratio (w1\<lparr>rng := seed env s\<rparr>)) =
      fst (split_images env image_dir train_ratio val_ratio (w2\<lparr>rng := seed env s\<rparr>)))
   \<and> fst (main env a (w\<lparr>rng := g\<rparr>)) = fst (main env a w)
   \<and> files (snd (main env a (w\<lparr>rng := g\<rparr>))) = files (snd (main env a w))
   \<and> events (snd (main env a (w\<lparr>rng := g\<rparr>))) = events (snd (main env a w))"
proof (intro conjI impI)
  assume "os_listdir (files w1) image_dir = os_listdir (files w2) image_dir"
  then show "fst (split_images env image_dir train_ratio val_ratio (w1\<lparr>rng := seed env s\<rparr>)) =
      fst (split_images env image_dir train_ratio val_ratio (w2\<lparr>rng := seed env s\<rparr>))"
    by (simp add: split_images_def split: sum.splits prod.splits)
next
  obtain r w0 where d: "dependency_check env a w = (r, w0)" by (cases "dependency_check env a w")
  then have d': "dependency_check env a (w\<lparr>rng := g\<rparr>) = (r, w0\<lparr>rng := g\<rparr>)"
    by (simp add: dependency_check_rng)
  have "fst (main env a (w\<lparr>rng := g\<rparr>)) = fst (main env a w)
      \<and> files (snd (main env a (w\<lparr>rng := g\<rparr>))) = files (snd (main env a w))
      \<and> events (snd (main env a (w\<lparr>rng := g\<rparr>))) = events (snd (main env a w))"
    by (cases r) (simp_all add: main_def seq_def[of "dependency_check env a"] d d' seq_reseed)
  then show "fst (main env a (w\<lparr>rng := g\<rparr>)) = fst (main env a w)"
    and "files (snd (main env a (w\<lparr>rng := g\<rparr>))) = files (snd (main env a w))"
    and "events (snd (main env a (w\<lparr>rng := g\<rparr>))) = events (snd (main env a w))"
    by simp_all
qed

theorem splitter_deterministic_witness:
  "fst (split_images ok_env [''src''] (float_literal (4 / 5)) (float_literal (1 / 10))
          (start\<lparr>rng := seed ok_env 42\<rparr>)) =
   fst (split_images ok_env [''src''] (float_literal (4 / 5)) (float_literal (1 / 10))
          (start\<lparr>files := retouched_dir, rng := seed ok_env 42\<rparr>))"
proof -
  have h: "os_listdir (files start) [''src''] =
           os_listdir (files (start\<lparr>files := retouched_dir\<rparr>)) [''src'']"
    by code_simp
  from splitter_deterministic[of start "[''src'']" "start\<lparr>files := retouched_dir\<rparr>" ok_env
      "float_literal (4 / 5)" "float_literal (1 / 10)" 42] h
  show ?thesis by simp
qed

subsection \<open>What \<open>create_colmap_structure\<close> returns\<close>

lemma seq_InrD:
  "fst (seq m f w) = Inr r \<Longrightarrow> \<exists>a w1. m w = (Inr a, w1) \<and> fst (f a w1) = Inr r"
  by (cases "m w") (auto simp: seq_def split: sum.splits)

text \<open>
  C8 (as amended). The collector is the loop of lines 62-64 inside
  \<open>create_colmap_structure\<close>; it yields no value. What \<open>create_colmap_structure\<close>
  returns is its output directory, whatever number of files was copied.
\<close>

theorem returns_base_dir:
  assumes "fst (create_colmap_structure env output_dir image_source is_video fps run_colmap w) = Inr r"
  shows "r = output_dir"
  using assms unfolding create_colmap_structure_def Let_def
  by (auto dest!: seq_InrD)

theorem returns_base_dir_witness:
  "fst (create_colmap_structure ok_env [''out''] [''src''] False 2 False start) = Inr [''out'']
   \<and> [''out''] = [''out'']"
proof -
  have h: "fst (create_colmap_structure ok_env [''out''] [''src''] False 2 False start) = Inr [''out'']"
    by code_simp
  from returns_base_dir[OF h] h show ?thesis by simp
qed

text \<open>
  C8 as stated fails: a run that copies two files and a run that copies one file return
  the same value, the output directory.
\<close>

theorem return_value_is_not_the_count:
  "fst (create_colmap_structure ok_env [''out''] [''src''] False 2 False start) = Inr [''out'']
   \<and> copied_count (events (snd (create_colmap_structure ok_env [''out''] [''src''] False 2 False
        start))) = 2
   \<and> fst (create_colmap_structure ok_env [''out''] [''src''] False 2 False
        (start\<lparr>files := single_photo\<rparr>)) = Inr [''out'']
   \<and> copied_count (events (snd (create_colmap_structure ok_env [''out''] [''src''] False 2 False
        (start\<lparr>files := single_photo\<rparr>)))) = 1"
  by code_simp

subsection \<open>The image collector\<close>

lemma lookup_update:
  "p \<noteq> [] \<Longrightarrow> lookup (AList.update p n fs) q = (if q = p then Some n else lookup fs q)"
  by (simp add: lookup_def update_conv')

lemma write_text_lookup:
  assumes "write_text fs p s = Inr fs'" and "q \<noteq> p"
  shows "lookup fs' q = lookup fs q"
proof -
  from assms(1) have "p \<noteq> []" by (auto simp: write_text_def lookup_def)
  with assms show ?thesis
    by (auto simp: write_text_def lookup_update split: option.splits node.splits)
qed

lemma write_text_nonroot: "write_text fs p s = Inr fs' \<Longrightarrow> p \<noteq> []"
  by (auto simp: write_text_def lookup_def)

lemma copy2_lookup:
  assumes "copy2 fs src dst = Inr fs'" and "\<not> is_dir fs dst"
  shows "lookup fs' q = (if q = dst then lookup fs src else lookup fs q)"
    and "\<exists>c m. lookup fs src = Some (File c m)"
    and "src \<noteq> dst"
proof -
  from assms obtain c m fs1 where
    s: "lookup fs src = Some (File c m)" and ne: "\<not> (src = dst \<and> exists fs src)" and
    wt: "write_text fs dst c = Inr fs1" and fs': "fs' = AList.update dst (File c m) fs1"
    by (auto simp: copy2_def Let_def split: if_splits option.splits node.splits sum.splits)
  from s show "\<exists>c m. lookup fs src = Some (File c m)" by blast
  from s ne show "src \<noteq> dst" by (auto simp: exists_def)
  from wt have "dst \<noteq> []" by (rule write_text_nonroot)
  with fs' s wt show "lookup fs' q = (if q = dst then lookup fs src else lookup fs q)"
    by (simp add: lookup_update write_text_lookup)
qed

lemma copy_images_effect:
  assumes "copy_images (map (\<lambda>n. src @ [n]) names) dst w = (Inr (), w')"
    and "\<forall>n\<in>set names. image_suffix n \<longrightarrow> \<not> is_dir (files w) (dst @ [n])"
  shows "lookup (files w') q =
           (if \<exists>n\<in>set names. image_suffix n \<and> q = dst @ [n]
            then lookup (files w) (src @ [name_of q]) else lookup (files w) q)
       \<and> events w' = events w @ map (\<lambda>n. Copy (src @ [n]) (dst @ [n])) (filter image_suffix names)
       \<and> rng w' = rng w"
  using assms
proof (induction names arbitrary: w)
  case Nil
  then show ?case by simp
next
  case (Cons n ns)
  show ?case
  proof (cases "image_suffix n")
    case False
    with Cons.prems have "copy_images (map (\<lambda>n. src @ [n]) ns) dst w = (Inr (), w')"
      by (simp add: name_of_snoc)
    from Cons.IH[OF this] Cons.prems(2) False show ?thesis by auto
  next
    case True
    with Cons.prems(1) obtain fs1 where
      c: "copy2 (files w) (src @ [n]) (dst @ [n]) = Inr fs1" and
      r: "copy_images (map (\<lambda>n. src @ [n]) ns) dst
            (emit (Copy (src @ [n]) (dst @ [n])) (w\<lparr>files := fs1\<rparr>)) = (Inr (), w')"
      by (auto simp: name_of_snoc split: sum.splits)
    from Cons.prems(2) True have nd: "\<not> is_dir (files w) (dst @ [n])" by simp
    note l1 = copy2_lookup(1)[OF c nd]
    from copy2_lookup(2)[OF c nd] obtain cc m where
      sf: "lookup (files w) (src @ [n]) = Some (File cc m)" by blast
    from copy2_lookup(3)[OF c nd] have sd: "src \<noteq> dst" by simp
    let ?w1 = "emit (Copy (src @ [n]) (dst @ [n])) (w\<lparr>files := fs1\<rparr>)"
    have f1: "files ?w1 = fs1" by (simp add: emit_def)
    have h: "\<forall>k\<in>set ns. image_suffix k \<longrightarrow> \<not> is_dir (files ?w1) (dst @ [k])"
      using Cons.prems(2) sf by (auto simp: f1 is_dir_def l1)
    note ih = Cons.IH[OF r h]
    from ih have
      a: "lookup (files w') q =
           (if \<exists>k\<in>set ns. image_suffix k \<and> q = dst @ [k]
            then lookup fs1 (src @ [name_of q]) else lookup fs1 q)"
      by (simp only: f1)
    from ih have
      b: "events w' = (events w @ [Copy (src @ [n]) (dst @ [n])]) @
            map (\<lambda>n. Copy (src @ [n]) (dst @ [n])) (filter image_suffix ns)"
      by (simp add: events_emit)
    from ih have d: "rng w' = rng w"
      by (simp add: rng_emit)
    have src_same: "lookup fs1 (src @ [k]) = lookup (files w) (src @ [k])" for k
      using sd by (simp add: l1)
    have "lookup (files w') q =
           (if \<exists>k\<in>set (n # ns). image_suffix k \<and> q = dst @ [k]
            then lookup (files w) (src @ [name_of q]) else lookup (files w) q)"
      using True by (auto simp: a src_same l1 name_of_snoc)
    moreover have "events w' = events w @
        map (\<lambda>n. Copy (src @ [n]) (dst @ [n])) (filter image_suffix (n # ns))"
      using True by (simp add: b)
    moreover note d
    ultimately show ?thesis by blast
  qed
qed

subsection \<open>The code's filter and the spec's words\<close>

lemma rfind_from_absent: "c \<notin> set s \<Longrightarrow> rfind_from s c i r = r"
  by (induction s arbitrary: i r) auto

lemma rfind_from_last: "c \<notin> set b \<Longrightarrow> rfind_from (a @ c # b) c i r = int (i + length a)"
  by (induction a arbitrary: i r) (auto simp: rfind_from_absent)

lemma suffix_of_no_dot: "CHR ''.'' \<notin> set name \<Longrightarrow> suffix_of name = []"
  by (simp add: suffix_of_def rfind_def rfind_from_absent)

lemma suffix_of_split:
  "CHR ''.'' \<notin> set b \<Longrightarrow>
   suffix_of (a @ CHR ''.'' # b) = (if a = [] \<or> b = [] then [] else CHR ''.'' # b)"
  by (auto simp: suffix_of_def rfind_def rfind_from_last Let_def)

lemma extension_no_dot:
  assumes "CHR ''.'' \<notin> set name"
  shows "extension name = []"
proof -
  have t: "dropWhile (\<lambda>c. c \<noteq> CHR ''.'') (rev name) = []"
    using assms by (auto simp: dropWhile_eq_Nil_conv)
  show ?thesis
    unfolding extension_def t by (simp add: Let_def)
qed

lemma extension_split:
  assumes "CHR ''.'' \<notin> set b"
  shows "extension (a @ CHR ''.'' # b) = (if a = [] \<or> b = [] then [] else CHR ''.'' # b)"
proof -
  have r: "rev (a @ CHR ''.'' # b) = rev b @ (CHR ''.'' # rev a)" by simp
  have "takeWhile (\<lambda>c. c \<noteq> CHR ''.'') (rev b @ (CHR ''.'' # rev a)) =
          rev b @ takeWhile (\<lambda>c. c \<noteq> CHR ''.'') (CHR ''.'' # rev a)"
    by (rule takeWhile_append2) (use assms in auto)
  then have t: "takeWhile (\<lambda>c. c \<noteq> CHR ''.'') (rev b @ (CHR ''.'' # rev a)) = rev b"
    by simp
  have "dropWhile (\<lambda>c. c \<noteq> CHR ''.'') (rev b @ (CHR ''.'' # rev a)) =
          dropWhile (\<lambda>c. c \<noteq> CHR ''.'') (CHR ''.'' # rev a)"
    by (rule dropWhile_append2) (use assms in auto)
  then have d: "dropWhile (\<lambda>c. c \<noteq> CHR ''.'') (rev b @ (CHR ''.'' # rev a)) = CHR ''.'' # rev a"
    by simp
  show ?thesis
    unfolding extension_def r t d by (simp add: Let_def)
qed

lemma suffix_of_extension: "suffix_of name = extension name"
proof (cases "CHR ''.'' \<in> set name")
  case False
  then show ?thesis by (simp add: suffix_of_no_dot extension_no_dot)
next
  case True
  from split_list_last[OF True] obtain a b where
    eq: "name = a @ CHR ''.'' # b" and nb: "CHR ''.'' \<notin> set b"
    by blast
  show ?thesis
    unfolding eq suffix_of_split[OF nb] extension_split[OF nb] ..
qed

lemma lower_eq_iff:
  assumes "\<And>c d. d \<in> set t \<Longrightarrow> (ascii_lower c = d) = same_letter c d"
  shows "(lower s = t) = same_ignoring_case s t"
  using assms unfolding lower_def same_ignoring_case_def
proof (induction s arbitrary: t)
  case Nil
  then show ?case by auto
next
  case (Cons c s)
  show ?case
  proof (cases t)
    case Nil
    then show ?thesis by simp
  next
    case (Cons d t')
    with Cons.prems have h: "(ascii_lower c = d) = same_letter c d" by simp
    from Cons.prems Cons have "\<And>c d. d \<in> set t' \<Longrightarrow> (ascii_lower c = d) = same_letter c d"
      by simp
    from Cons.IH[OF this] h Cons show ?thesis by simp
  qed
qed

lemma lower_letters:
  "\<forall>c. (ascii_lower c = CHR ''.'') = same_letter c CHR ''.''"
  "\<forall>c. (ascii_lower c = CHR ''p'') = same_letter c CHR ''p''"
  "\<forall>c. (ascii_lower c = CHR ''n'') = same_letter c CHR ''n''"
  "\<forall>c. (ascii_lower c = CHR ''g'') = same_letter c CHR ''g''"
  "\<forall>c. (ascii_lower c = CHR ''j'') = same_letter c CHR ''j''"
  "\<forall>c. (ascii_lower c = CHR ''e'') = same_letter c CHR ''e''"
  by code_simp+

lemma lower_recognized:
  "(lower s \<in> set [''.png'', ''.jpg'', ''.jpeg'']) =
     list_ex (same_ignoring_case s) recognized_extensions"
proof -
  have "(lower s = ''.png'') = same_ignoring_case s ''.png''"
    by (rule lower_eq_iff) (use lower_letters in auto)
  moreover have "(lower s = ''.jpg'') = same_ignoring_case s ''.jpg''"
    by (rule lower_eq_iff) (use lower_letters in auto)
  moreover have "(lower s = ''.jpeg'') = same_ignoring_case s ''.jpeg''"
    by (rule lower_eq_iff) (use lower_letters in auto)
  ultimately show ?thesis
    by (simp add: recognized_extensions_def)
qed

text \<open>The filter of line 63 selects exactly the names that the spec recognizes.\<close>

lemma image_suffix_recognized: "image_suffix name = recognized name"
  by (simp only: image_suffix_def recognized_def suffix_of_extension lower_recognized)

subsection \<open>What the collector copies\<close>

text \<open>
  C7 (as amended). Run on a source directory, with no directory standing at
  \<open>input_dir/name\<close> for a recognized entry, a collector run that returns has copied
  exactly the direct entries whose extension, compared case-insensitively, is \<open>.png\<close>,
  \<open>.jpg\<close> or \<open>.jpeg\<close>: each such entry is at \<open>input_dir/name\<close> with the node of the
  source (content and metadata), every other path of the file system is as before, and
  the log gains one copy per such entry. Of the entries \<open>a.jpg\<close>, \<open>b.PNG\<close>,
  \<open>c.txt\<close>, \<open>d.bmp\<close> exactly \<open>a.jpg\<close> and \<open>b.PNG\<close> are recognized.
\<close>

theorem collector_copies_images:
  assumes "collect source_images input_dir w = (Inr (), w')"
    and "is_dir (files w) source_images"
    and "\<forall>n\<in>set (entries (files w) source_images).
           recognized n \<longrightarrow> \<not> is_dir (files w) (input_dir @ [n])"
  shows "(\<forall>q. lookup (files w') q =
           (if \<exists>n\<in>set (entries (files w) source_images). recognized n \<and> q = input_dir @ [n]
            then lookup (files w) (source_images @ [name_of q]) else lookup (files w) q))
       \<and> events w' = events w @
           map (\<lambda>n. Copy (source_images @ [n]) (input_dir @ [n]))
             (filter recognized (entries (files w) source_images))
       \<and> filter recognized [''a.jpg'', ''b.PNG'', ''c.txt'', ''d.bmp''] = [''a.jpg'', ''b.PNG'']"
proof -
  have fr: "image_suffix = recognized"
    by (rule ext) (rule image_suffix_recognized)
  from assms(1,2) have
    c: "copy_images (map (\<lambda>n. source_images @ [n]) (entries (files w) source_images)) input_dir w
          = (Inr (), w')"
    by (simp add: collect_def glob_star_def)
  from assms(3) have
    h: "\<forall>n\<in>set (entries (files w) source_images).
           image_suffix n \<longrightarrow> \<not> is_dir (files w) (input_dir @ [n])"
    by (simp only: fr)
  have sel: "filter recognized [''a.jpg'', ''b.PNG'', ''c.txt'', ''d.bmp''] = [''a.jpg'', ''b.PNG'']"
    by code_simp
  from copy_images_effect[OF c h, unfolded fr] sel show ?thesis by blast
qed

theorem collector_copies_images_witness:
  "lookup (files (snd (collect [''src''] [''out'', ''input''] (start\<lparr>files := built_dir\<rparr>))))
      [''out'', ''input'', ''b.PNG''] = Some (File ''B'' 8)
   \<and> lookup (files (snd (collect [''src''] [''out'', ''input''] (start\<lparr>files := built_dir\<rparr>))))
      [''out'', ''input'', ''c.txt''] = None
   \<and> events (snd (collect [''src''] [''out'', ''input''] (start\<lparr>files := built_dir\<rparr>))) =
       [Copy [''src'', ''a.jpg''] [''out'', ''input'', ''a.jpg''],
        Copy [''src'', ''b.PNG''] [''out'', ''input'', ''b.PNG'']]"
proof -
  let ?w = "start\<lparr>files := built_dir\<rparr>"
  have h: "collect [''src''] [''out'', ''input''] ?w =
             (Inr (), snd (collect [''src''] [''out'', ''input''] ?w))"
    by code_simp
  have d: "is_dir (files ?w) [''src'']"
    by code_simp
  have e: "entries built_dir [''src''] = [''a.jpg'', ''b.PNG'', ''c.txt'', ''d.bmp'', ''sub'']"
    by code_simp
  have g: "\<forall>n\<in>set (entries (files ?w) [''src'']).
             recognized n \<longrightarrow> \<not> is_dir (files ?w) ([''out'', ''input''] @ [n])"
    by code_simp
  have i: "recognized ''b.PNG''" "\<not> recognized ''c.txt''" "recognized ''a.jpg''"
    "\<not> recognized ''d.bmp''" "\<not> recognized ''sub''"
    by code_simp+
  have l: "lookup built_dir [''src'', ''b.PNG''] = Some (File ''B'' 8)"
    "lookup built_dir [''out'', ''input'', ''c.txt''] = None"
    by code_simp+
  have ev: "events start = []"
    by (simp add: start_def)
  note t = collector_copies_images[OF h d g]
  from t[THEN conjunct1, THEN spec[where x = "[''out'', ''input'', ''b.PNG'']"]]
  have "lookup (files (snd (collect [''src''] [''out'', ''input''] ?w)))
      [''out'', ''input'', ''b.PNG''] = Some (File ''B'' 8)"
    by (simp add: e i l name_of_def)
  moreover from t[THEN conjunct1, THEN spec[where x = "[''out'', ''input'', ''c.txt'']"]]
  have "lookup (files (snd (collect [''src''] [''out'', ''input''] ?w)))
      [''out'', ''input'', ''c.txt''] = None"
    by (simp add: e i l name_of_def)
  moreover from t[THEN conjunct2, THEN conjunct1]
  have "events (snd (collect [''src''] [''out'', ''input''] ?w)) =
       [Copy [''src'', ''a.jpg''] [''out'', ''input'', ''a.jpg''],
        Copy [''src'', ''b.PNG''] [''out'', ''input'', ''b.PNG'']]"
    by (simp add: e i ev)
  ultimately show ?thesis by blast
qed

text \<open>
  C7 as stated fails when a directory stands at the destination: with a directory
  \<open>input/a.jpg\<close> in place, the collector returns normally, \<open>input/a.jpg\<close> is still that
  directory, and the copy of the recognized entry \<open>a.jpg\<close> is inside it, at
  \<open>input/a.jpg/a.jpg\<close>.
\<close>

theorem directory_at_destination:
  "recognized ''a.jpg''
   \<and> ''a.jpg'' \<in> set (entries blocked_dir [''src''])
   \<and> fst (collect [''src''] [''out'', ''input''] (start\<lparr>files := blocked_dir\<rparr>)) = Inr ()
   \<and> lookup (files (snd (collect [''src''] [''out'', ''input''] (start\<lparr>files := blocked_dir\<rparr>))))
        [''out'', ''input'', ''a.jpg''] = Some Dir
   \<and> lookup (files (snd (collect [''src''] [''out'', ''input''] (start\<lparr>files := blocked_dir\<rparr>))))
        [''out'', ''input'', ''a.jpg'', ''a.jpg''] = Some (File ''A'' 7)"
  by code_simp

subsection \<open>The order of writing and reconstruction\<close>

lemma quiet_step_iff:
  "quiet_step w w' \<longleftrightarrow> (\<exists>evs. events w' = events w @ evs \<and> (\<forall>e\<in>set evs. \<not> colmap_stage e))"
proof
  assume q: "quiet_step w w'"
  let ?evs = "drop (length (events w)) (events w')"
  from q have "events w' = events w @ ?evs"
    by (metis append_take_drop_id quiet_step_def)
  moreover from q have "\<forall>e\<in>set ?evs. \<not> colmap_stage e"
    by (simp add: quiet_step_def list_all_iff)
  ultimately show "\<exists>evs. events w' = events w @ evs \<and> (\<forall>e\<in>set evs. \<not> colmap_stage e)"
    by blast
next
  assume "\<exists>evs. events w' = events w @ evs \<and> (\<forall>e\<in>set evs. \<not> colmap_stage e)"
  then show "quiet_step w w'"
    by (auto simp: quiet_step_def list_all_iff)
qed

lemma quiet_step_refl: "quiet_step w w"
  by (simp add: quiet_step_def)

lemma quiet_step_same_events: "events w' = events w \<Longrightarrow> quiet_step w w'"
  by (simp add: quiet_step_def)

lemma quiet_step_trans: "quiet_step w w1 \<Longrightarrow> quiet_step w1 w2 \<Longrightarrow> quiet_step w w2"
  by (auto simp: quiet_step_iff)

lemma quiet_step_emit:
  "\<not> colmap_stage ev \<Longrightarrow> quiet_step w w1 \<Longrightarrow> quiet_step w (emit ev w1)"
  by (auto simp: quiet_step_iff events_emit)

lemma quiet_seq:
  assumes "quiet m" and "\<And>a. quiet (f a)"
  shows "quiet (seq m f)"
  unfolding quiet_def
proof (intro allI impI)
  fix w r w'
  assume s: "seq m f w = (r, w')"
  obtain ra wa where m: "m w = (ra, wa)" by (cases "m w")
  with assms(1) have q1: "quiet_step w wa" by (simp add: quiet_def)
  show "quiet_step w w'"
  proof (cases ra)
    case (Inl e)
    with s m have "w' = wa" by (simp add: seq_def)
    with q1 show ?thesis by simp
  next
    case (Inr a)
    with s m have "f a wa = (r, w')" by (simp add: seq_def)
    with assms(2) have "quiet_step wa w'" by (auto simp: quiet_def)
    with q1 show ?thesis by (rule quiet_step_trans)
  qed
qed

lemma quiet_pure: "quiet (\<lambda>w. (Inr a, w))"
  by (simp add: quiet_def quiet_step_refl)

lemma quiet_say: "quiet (say s)"
  by (simp add: quiet_def say_def quiet_step_emit quiet_step_refl colmap_stage_def)

lemma quiet_on_files: "quiet (on_files f)"
  by (auto simp: quiet_def on_files_def quiet_step_same_events split: sum.splits)

lemma quiet_build_layout: "quiet (build_layout base_dir)"
  by (simp add: build_layout_def Let_def quiet_seq quiet_on_files)

lemma quiet_ffmpeg: "quiet (subprocess_run env (''ffmpeg'' # rest))"
  by (auto simp: quiet_def subprocess_run_def Let_def quiet_step_iff emit_def colmap_stage_def
      split: sum.splits)

lemma quiet_extract_frames: "quiet (extract_frames_from_video env video_path output_dir fps)"
  by (simp add: extract_frames_from_video_def Let_def quiet_seq quiet_on_files quiet_say quiet_ffmpeg)

lemma quiet_copy_images: "quiet (copy_images imgs input_dir :: ('g, unit) action)"
  unfolding quiet_def
proof (induction imgs)
  case Nil
  show ?case by (simp add: quiet_step_refl)
next
  case (Cons img rest)
  show ?case
  proof (intro allI impI)
    fix w w' :: "'g world" and r
    assume c: "copy_images (img # rest) input_dir w = (r, w')"
    show "quiet_step w w'"
    proof (cases "image_suffix (name_of img)")
      case False
      with c have "copy_images rest input_dir w = (r, w')" by simp
      with Cons show ?thesis by blast
    next
      case True
      show ?thesis
      proof (cases "copy2 (files w) img (input_dir @ [name_of img])")
        case (Inl e)
        with c True show ?thesis by (simp add: quiet_step_refl)
      next
        case (Inr fs')
        let ?w1 = "emit (Copy img (input_dir @ [name_of img])) (w\<lparr>files := fs'\<rparr>)"
        from c True Inr have "copy_images rest input_dir ?w1 = (r, w')" by simp
        with Cons have "quiet_step ?w1 w'" by blast
        moreover have "quiet_step w ?w1"
          by (auto simp: quiet_step_iff emit_def colmap_stage_def)
        ultimately show ?thesis by (rule quiet_step_trans[rotated])
      qed
    qed
  qed
qed

lemma quiet_collect: "quiet (collect source_images input_dir)"
  unfolding quiet_def collect_def
proof (intro allI impI)
  fix w r w'
  assume "copy_images (glob_star (files w) source_images) input_dir w = (r, w')"
  from quiet_copy_images[unfolded quiet_def, rule_format, OF this] show "quiet_step w w'" .
qed

lemma quiet_split_images: "quiet (split_images env image_dir train_ratio val_ratio)"
  by (auto simp: quiet_def split_images_def quiet_step_same_events
      split: sum.splits prod.splits)

lemma write_text_self:
  "write_text fs p s = Inr fs' \<Longrightarrow> content_of fs' p = Some s"
  by (frule write_text_nonroot)
     (auto simp: write_text_def content_of_def lookup_update split: option.splits node.splits)

lemma write_text_other:
  "write_text fs p s = Inr fs' \<Longrightarrow> q \<noteq> p \<Longrightarrow> content_of fs' q = content_of fs q"
  by (simp add: content_of_def write_text_lookup)

lemma write_lists_items:
  assumes "write_lists base_dir (items splits) w = (Inr (), w1)"
  shows "events w1 = events w @
           [WriteFile (base_dir @ [''train_list.txt'']) (join [CHR 0x0A] (train splits)),
            WriteFile (base_dir @ [''val_list.txt'']) (join [CHR 0x0A] (val splits)),
            WriteFile (base_dir @ [''test_list.txt'']) (join [CHR 0x0A] (test splits))]"
    and "lists_on_disk (files w1) base_dir splits"
proof -
  let ?tr = "base_dir @ [''train_list.txt'']"
  let ?va = "base_dir @ [''val_list.txt'']"
  let ?te = "base_dir @ [''test_list.txt'']"
  from assms obtain f1 f2 f3 where
    a: "write_text (files w) ?tr (join [CHR 0x0A] (train splits)) = Inr f1" and
    b: "write_text f1 ?va (join [CHR 0x0A] (val splits)) = Inr f2" and
    c: "write_text f2 ?te (join [CHR 0x0A] (test splits)) = Inr f3" and
    w1: "w1 = emit (WriteFile ?te (join [CHR 0x0A] (test splits)))
               ((emit (WriteFile ?va (join [CHR 0x0A] (val splits)))
                  ((emit (WriteFile ?tr (join [CHR 0x0A] (train splits))) (w\<lparr>files := f1\<rparr>))
                     \<lparr>files := f2\<rparr>))\<lparr>files := f3\<rparr>)"
    by (auto simp: items_def Let_def files_emit split: sum.splits)
  from w1 show "events w1 = events w @
           [WriteFile ?tr (join [CHR 0x0A] (train splits)),
            WriteFile ?va (join [CHR 0x0A] (val splits)),
            WriteFile ?te (join [CHR 0x0A] (test splits))]"
    by (simp add: emit_def)
  from w1 have f: "files w1 = f3" by (simp add: emit_def)
  have "content_of f3 ?te = Some (join [CHR 0x0A] (test splits))"
    using c by (rule write_text_self)
  moreover have "content_of f3 ?va = Some (join [CHR 0x0A] (val splits))"
    using write_text_other[OF c, of ?va] write_text_self[OF b] by simp
  moreover have "content_of f3 ?tr = Some (join [CHR 0x0A] (train splits))"
    using write_text_other[OF c, of ?tr] write_text_other[OF b, of ?tr] write_text_self[OF a]
    by simp
  ultimately show "lists_on_disk (files w1) base_dir splits"
    by (simp add: lists_on_disk_def items_def f)
qed

lemma quiet_write_lists: "quiet (write_lists base_dir l :: ('g, unit) action)"
  unfolding quiet_def
proof (induction l)
  case Nil
  show ?case by (simp add: quiet_step_refl)
next
  case (Cons x rest)
  obtain split_name img_list where x: "x = (split_name, img_list)" by (cases x)
  show ?case
  proof (intro allI impI)
    fix w w' :: "'g world" and r
    assume c: "write_lists base_dir (x # rest) w = (r, w')"
    let ?p = "base_dir @ [split_name @ ''_list.txt'']"
    let ?t = "join [CHR 0x0A] img_list"
    show "quiet_step w w'"
    proof (cases "write_text (files w) ?p ?t")
      case (Inl e)
      with c x show ?thesis by (simp add: Let_def quiet_step_refl)
    next
      case (Inr fs')
      let ?w1 = "emit (WriteFile ?p ?t) (w\<lparr>files := fs'\<rparr>)"
      from c x Inr have "write_lists base_dir rest ?w1 = (r, w')" by (simp add: Let_def)
      with Cons have "quiet_step ?w1 w'" by blast
      moreover have "quiet_step w ?w1"
        by (auto simp: quiet_step_iff emit_def colmap_stage_def)
      ultimately show ?thesis by (rule quiet_step_trans[rotated])
    qed
  qed
qed

lemma seq_quiet_split:
  assumes "quiet m" and "seq m f w = (r, w')" and "\<not> quiet_step w w'"
  shows "\<exists>a w1. m w = (Inr a, w1) \<and> quiet_step w w1 \<and> f a w1 = (r, w') \<and> \<not> quiet_step w1 w'"
proof -
  obtain ra wa where m: "m w = (ra, wa)" by (cases "m w")
  with assms(1) have q: "quiet_step w wa" by (simp add: quiet_def)
  show ?thesis
  proof (cases ra)
    case (Inl e)
    with assms(2) m have "w' = wa" by (simp add: seq_def)
    with q assms(3) show ?thesis by simp
  next
    case (Inr a)
    with assms(2) m have f: "f a wa = (r, w')" by (simp add: seq_def)
    from q assms(3) have "\<not> quiet_step wa w'" using quiet_step_trans by blast
    with m Inr q f show ?thesis by blast
  qed
qed

lemma grows_seq:
  assumes "grows m" and "\<And>a. grows (f a)"
  shows "grows (seq m f)"
  unfolding grows_def
proof (intro allI impI)
  fix w r w'
  assume s: "seq m f w = (r, w')"
  obtain ra wa where m: "m w = (ra, wa)" by (cases "m w")
  with assms(1) have p1: "prefix (events w) (events wa)" by (simp add: grows_def)
  show "prefix (events w) (events w')"
  proof (cases ra)
    case (Inl e)
    with s m have "w' = wa" by (simp add: seq_def)
    with p1 show ?thesis by simp
  next
    case (Inr a)
    with s m have "f a wa = (r, w')" by (simp add: seq_def)
    with assms(2) have "prefix (events wa) (events w')" by (auto simp: grows_def)
    with p1 show ?thesis by (rule prefix_order.trans)
  qed
qed

lemma grows_say: "grows (say s)"
  by (simp add: grows_def say_def emit_def)

lemma grows_subprocess_run: "grows (subprocess_run env cmd)"
  by (auto simp: grows_def subprocess_run_def Let_def emit_def split: sum.splits)

lemma grows_convert: "grows (convert_if_present env sparse_dir)"
proof -
  have "grows (seq (say ''Converting to text format...'')
                (\<lambda>_. subprocess_run env (cmd_convert (sparse_dir @ [''0'']))))"
    by (simp add: grows_seq grows_say grows_subprocess_run)
  then show ?thesis
    by (auto simp: grows_def convert_if_present_def Let_def)
qed

lemma grows_pipeline:
  "grows (run_colmap_pipeline env image_dir distorted_dir database_path sparse_dir)"
  by (simp add: run_colmap_pipeline_def grows_seq grows_say grows_subprocess_run grows_convert)

text \<open>
  C10. In a run of \<open>create_colmap_structure\<close> in which \<open>colmap\<close> is invoked at all,
  the run first reaches, without any invocation of \<open>colmap\<close>, a world in which the three
  lists have just been written, one after the other, and are on disk with the
  newline-joined names of the partition; the reconstruction pipeline is started from
  that world (after the line of counts is printed), and the outcome of the run is the
  outcome of the pipeline. The writes therefore precede every reconstruction stage in
  the log, whether a stage fails or not.
\<close>

theorem lists_written_before_pipeline:
  assumes "create_colmap_structure env output_dir image_source is_video fps run_colmap w = (r, w')"
    and "\<not> quiet_step w w'"
  shows "\<exists>splits w0 w1 r1 w2.
           quiet_step w w0
         \<and> events w1 = events w0 @
             [WriteFile (output_dir @ [''train_list.txt'']) (join [CHR 0x0A] (train splits)),
              WriteFile (output_dir @ [''val_list.txt'']) (join [CHR 0x0A] (val splits)),
              WriteFile (output_dir @ [''test_list.txt'']) (join [CHR 0x0A] (test splits))]
         \<and> lists_on_disk (files w1) output_dir splits
         \<and> run_colmap_pipeline env (output_dir @ [''input'']) (output_dir @ [''distorted''])
               (output_dir @ [''distorted'', ''database.db''])
               (output_dir @ [''distorted'', ''sparse''])
               (emit (Print (counts_line splits)) w1) = (r1, w2)
         \<and> prefix (events w1) (events w')
         \<and> (case r1 of
               Inl e \<Rightarrow> r = Inl e \<and> w' = w2
             | Inr u \<Rightarrow> r = Inr output_dir
                         \<and> w' = emit (Print (''Dataset ready: '' @ path_str output_dir)) w2)"
proof -
  let ?input = "output_dir @ [''input'']"
  let ?frames = "output_dir @ [''extracted_frames'']"
  let ?run = "run_colmap_pipeline env ?input (output_dir @ [''distorted''])
               (output_dir @ [''distorted'', ''database.db''])
               (output_dir @ [''distorted'', ''sparse''])"
  let ?P = "if run_colmap then ?run else (\<lambda>w. (Inr (), w))"
  let ?K7 = "\<lambda>_::unit. seq (say (''Dataset ready: '' @ path_str output_dir))
                          (\<lambda>_ w. (Inr output_dir, w))"
  let ?K5 = "\<lambda>splits (_::unit). seq (say (counts_line splits)) (\<lambda>_. seq ?P ?K7)"
  let ?K4 = "\<lambda>splits. seq (write_lists output_dir (items splits)) (?K5 splits)"
  let ?K3 = "\<lambda>_::unit. seq (split_images env ?input (float_literal (4 / 5))
                             (float_literal (1 / 10))) ?K4"
  let ?K2 = "\<lambda>src (_::unit). seq (collect src ?input) ?K3"
  let ?K1 = "\<lambda>src. seq (say ''Copying images...'') (?K2 src)"
  let ?B = "if is_video
            then seq (extract_frames_from_video env image_source ?frames fps)
                     (\<lambda>_ w. (Inr ?frames, w))
            else (\<lambda>w. (Inr image_source, w))"
  have c0: "seq (build_layout output_dir) (\<lambda>_. seq ?B ?K1) w = (r, w')"
    using assms(1) unfolding create_colmap_structure_def Let_def
    by (simp only: append_assoc append.simps)
  from seq_quiet_split[OF quiet_build_layout c0 assms(2)] obtain wa where
    qa: "quiet_step w wa" and ca: "seq ?B ?K1 wa = (r, w')" and na: "\<not> quiet_step wa w'"
    by blast
  have qB: "quiet ?B"
    by (simp add: quiet_seq quiet_extract_frames quiet_pure)
  from seq_quiet_split[OF qB ca na] obtain src wb where
    qb: "quiet_step wa wb" and
    cb: "seq (say ''Copying images...'') (?K2 src) wb = (r, w')" and
    nb: "\<not> quiet_step wb w'"
    by blast
  from seq_quiet_split[OF quiet_say cb nb] obtain wc where
    qc: "quiet_step wb wc" and cc: "seq (collect src ?input) ?K3 wc = (r, w')" and
    nc: "\<not> quiet_step wc w'"
    by blast
  from seq_quiet_split[OF quiet_collect cc nc] obtain wd where
    qd: "quiet_step wc wd" and
    cd: "seq (split_images env ?input (float_literal (4 / 5)) (float_literal (1 / 10))) ?K4 wd
           = (r, w')" and
    nd: "\<not> quiet_step wd w'"
    by blast
  from seq_quiet_split[OF quiet_split_images cd nd] obtain splits w0 where
    qe: "quiet_step wd w0" and
    ce: "seq (write_lists output_dir (items splits)) (?K5 splits) w0 = (r, w')" and
    ne: "\<not> quiet_step w0 w'"
    by blast
  from seq_quiet_split[OF quiet_write_lists ce ne] obtain w1 where
    wl: "write_lists output_dir (items splits) w0 = (Inr (), w1)" and
    c1: "seq (say (counts_line splits)) (\<lambda>_. seq ?P ?K7) w1 = (r, w')" and
    n1: "\<not> quiet_step w1 w'"
    by auto
  from qa qb qc qd qe have q0: "quiet_step w w0"
    by (blast intro: quiet_step_trans)
  note ev = write_lists_items(1)[OF wl]
  note disk = write_lists_items(2)[OF wl]
  let ?w1' = "emit (Print (counts_line splits)) w1"
  from c1 have c2: "seq ?P ?K7 ?w1' = (r, w')"
    by (simp add: seq_say)
  have q1: "quiet_step w1 ?w1'"
    by (simp add: quiet_step_emit quiet_step_refl colmap_stage_def)
  have rc: "run_colmap"
  proof (rule ccontr)
    assume "\<not> run_colmap"
    then have "quiet (seq ?P ?K7)"
      by (simp add: quiet_seq quiet_pure quiet_say)
    from this[unfolded quiet_def, rule_format, OF c2] have "quiet_step ?w1' w'" .
    with q1 have "quiet_step w1 w'" by (rule quiet_step_trans)
    with n1 show False by simp
  qed
  obtain r1 w2 where p: "?run ?w1' = (r1, w2)" by (cases "?run ?w1'")
  from c2 rc p have fin: "case r1 of
               Inl e \<Rightarrow> r = Inl e \<and> w' = w2
             | Inr u \<Rightarrow> r = Inr output_dir
                         \<and> w' = emit (Print (''Dataset ready: '' @ path_str output_dir)) w2"
    by (auto simp: seq_def say_def split: sum.splits)
  from grows_pipeline[unfolded grows_def, rule_format, OF p]
  have "prefix (events ?w1') (events w2)" .
  then have "prefix (events w1) (events w2)"
    by (auto simp: events_emit prefix_def)
  with fin have pre: "prefix (events w1) (events w')"
    by (cases r1) (auto simp: events_emit prefix_def)
  from q0 ev disk p pre fin show ?thesis by blast
qed

theorem lists_written_before_pipeline_witness:
  "\<exists>splits w0 w1 r1 w2.
           quiet_step start w0
         \<and> events w1 = events w0 @
             [WriteFile ([''out''] @ [''train_list.txt'']) (join [CHR 0x0A] (train splits)),
              WriteFile ([''out''] @ [''val_list.txt'']) (join [CHR 0x0A] (val splits)),
              WriteFile ([''out''] @ [''test_list.txt'']) (join [CHR 0x0A] (test splits))]
         \<and> lists_on_disk (files w1) [''out''] splits
         \<and> run_colmap_pipeline failing_env ([''out''] @ [''input'']) ([''out''] @ [''distorted''])
               ([''out''] @ [''distorted'', ''database.db''])
               ([''out''] @ [''distorted'', ''sparse''])
               (emit (Print (counts_line splits)) w1) = (r1, w2)
         \<and> prefix (events w1)
              (events (snd (create_colmap_structure failing_env [''out''] [''src''] False 2 True start)))
         \<and> (case r1 of
               Inl e \<Rightarrow> fst (create_colmap_structure failing_env [''out''] [''src''] False 2 True start)
                           = Inl e
                         \<and> snd (create_colmap_structure failing_env [''out''] [''src''] False 2 True start)
                           = w2
             | Inr u \<Rightarrow> fst (create_colmap_structure failing_env [''out''] [''src''] False 2 True start)
                           = Inr [''out'']
                         \<and> snd (create_colmap_structure failing_env [''out''] [''src''] False 2 True start)
                           = emit (Print (''Dataset ready: '' @ path_str [''out''])) w2)"
proof -
  have h: "create_colmap_structure failing_env [''out''] [''src''] False 2 True start =
             (fst (create_colmap_structure failing_env [''out''] [''src''] False 2 True start),
              snd (create_colmap_structure failing_env [''out''] [''src''] False 2 True start))"
    by simp
  have n: "\<not> quiet_step start
             (snd (create_colmap_structure failing_env [''out''] [''src''] False 2 True start))"
    by code_simp
  from lists_written_before_pipeline[OF h n] show ?thesis .
qed

end
